(* ===== verification/Hash_Map.thy ===== *)
theory Hash_Map
  imports Prelude "HOL-Library.AList"
begin

text \<open>
  \<open>std::collections::HashMap\<close> as the code uses it: \<open>get\<close>, \<open>contains_key\<close>, \<open>insert\<close>, \<open>remove\<close>,
  \<open>retain\<close>, \<open>len\<close>, \<open>keys\<close> and collecting an iterator of pairs. A map is a list of entries with
  distinct keys. The order of the list stands for the iteration order of the hash table, which
  the library leaves open; no theorem of the development fixes it. The locale \<open>hash_map\<close> is the
  contract the components rely on, and \<open>hm\<close> its interpretation on the list model.
\<close>

type_synonym ('k, 'v) hmap = "('k \<times> 'v) list"

definition hm_invar :: "('k, 'v) hmap \<Rightarrow> bool" where
  "hm_invar m \<longleftrightarrow> distinct (map fst m)"

definition hm_empty :: "('k, 'v) hmap" where
  "hm_empty = []"

definition hm_get :: "('k, 'v) hmap \<Rightarrow> 'k \<Rightarrow> 'v option" where
  "hm_get m k = map_of m k"

definition hm_contains_key :: "('k, 'v) hmap \<Rightarrow> 'k \<Rightarrow> bool" where
  "hm_contains_key m k \<longleftrightarrow> hm_get m k \<noteq> None"

definition hm_insert :: "'k \<Rightarrow> 'v \<Rightarrow> ('k, 'v) hmap \<Rightarrow> ('k, 'v) hmap" where
  "hm_insert k v m = AList.update k v m"

definition hm_remove :: "'k \<Rightarrow> ('k, 'v) hmap \<Rightarrow> ('k, 'v) hmap" where
  "hm_remove k m = AList.delete k m"

definition hm_retain :: "('k \<Rightarrow> 'v \<Rightarrow> bool) \<Rightarrow> ('k, 'v) hmap \<Rightarrow> ('k, 'v) hmap" where
  "hm_retain P m = filter (\<lambda>(k, v). P k v) m"

definition hm_len :: "('k, 'v) hmap \<Rightarrow> nat" where
  "hm_len m = length m"

definition hm_keys :: "('k, 'v) hmap \<Rightarrow> 'k list" where
  "hm_keys m = map fst m"

text \<open>\<open>iter.collect::<HashMap<_, _>>()\<close>: every pair is inserted in turn.\<close>

definition hm_collect :: "('k \<times> 'v) list \<Rightarrow> ('k, 'v) hmap" where
  "hm_collect kvs = fold (\<lambda>(k, v). hm_insert k v) kvs hm_empty"

section \<open>The contract\<close>

locale hash_map =
  fixes empty :: 'm
    and get :: "'m \<Rightarrow> 'k \<Rightarrow> 'v option"
    and insert :: "'k \<Rightarrow> 'v \<Rightarrow> 'm \<Rightarrow> 'm"
    and remove :: "'k \<Rightarrow> 'm \<Rightarrow> 'm"
    and retain :: "('k \<Rightarrow> 'v \<Rightarrow> bool) \<Rightarrow> 'm \<Rightarrow> 'm"
    and len :: "'m \<Rightarrow> nat"
    and invar :: "'m \<Rightarrow> bool"
  assumes invar_empty: "invar empty"
    and invar_insert: "invar m \<Longrightarrow> invar (insert k v m)"
    and invar_remove: "invar m \<Longrightarrow> invar (remove k m)"
    and invar_retain: "invar m \<Longrightarrow> invar (retain P m)"
    and get_empty: "get empty = Map.empty"
    and get_insert: "invar m \<Longrightarrow> get (insert k v m) = (get m)(k \<mapsto> v)"
    and get_remove: "invar m \<Longrightarrow> get (remove k m) = (get m)(k := None)"
    and get_retain: "invar m \<Longrightarrow> get (retain P m) k =
      (case get m k of Some v \<Rightarrow> if P k v then Some v else None | None \<Rightarrow> None)"
    and finite_get: "invar m \<Longrightarrow> finite (dom (get m))"
    and len_card: "invar m \<Longrightarrow> len m = card (dom (get m))"
begin

lemma len_insert:
  assumes "invar m"
  shows "len (insert k v m) = (if get m k = None then Suc (len m) else len m)"
proof (cases "get m k")
  case None
  then have "k \<notin> dom (get m)" by (simp add: domIff)
  then show ?thesis
    using assms None by (simp add: len_card get_insert invar_insert finite_get)
next
  case (Some w)
  then have "Set.insert k (dom (get m)) = dom (get m)" by auto
  then show ?thesis
    using assms Some by (simp add: len_card get_insert invar_insert)
qed

lemma len_retain_le: "invar m \<Longrightarrow> len (retain P m) \<le> len m"
  by (auto simp: len_card invar_retain get_retain finite_get split: option.splits if_splits
      intro!: card_mono)

lemma len_eq_0_iff: "invar m \<Longrightarrow> len m = 0 \<longleftrightarrow> get m = Map.empty"
  by (simp add: len_card finite_get)

lemma len_pos_get: "invar m \<Longrightarrow> get m k = Some v \<Longrightarrow> len m \<noteq> 0"
  by (auto simp: len_eq_0_iff)

lemma len_remove:
  assumes "invar m"
  shows "len (remove k m) = (if get m k = None then len m else len m - 1)"
proof -
  have "dom ((get m)(k := None)) = dom (get m) - {k}" by auto
  then show ?thesis
    using assms by (auto simp: len_card get_remove invar_remove finite_get domIff)
qed

lemma len_le_1_unique:
  assumes "invar m" and "len m \<le> 1" and "get m k = Some v" and "get m k' = Some v'"
  shows "k = k'"
proof -
  have "card (dom (get m)) \<le> Suc 0" using assms(1,2) by (simp add: len_card)
  then have "\<forall>a \<in> dom (get m). \<forall>b \<in> dom (get m). a = b"
    using finite_get [OF assms(1)] by (simp add: card_le_Suc0_iff_eq)
  moreover have "k \<in> dom (get m)" and "k' \<in> dom (get m)" using assms(3,4) by auto
  ultimately show ?thesis by blast
qed

end

lemma map_of_filter_distinct:
  assumes "distinct (map fst m)"
  shows "map_of (filter (\<lambda>(k, v). P k v) m) k =
    (case map_of m k of Some v \<Rightarrow> if P k v then Some v else None | None \<Rightarrow> None)"
  using assms
proof (induction m)
  case Nil
  then show ?case by simp
next
  case (Cons kv m)
  obtain k' v' where kv: "kv = (k', v')" by (cases kv)
  have "k' \<notin> fst ` set m" using Cons.prems kv by simp
  then have "map_of m k' = None" by (simp add: map_of_eq_None_iff)
  then show ?case using Cons kv by (auto split: option.splits)
qed

interpretation hm: hash_map hm_empty hm_get hm_insert hm_remove hm_retain hm_len hm_invar
proof unfold_locales
  show "hm_invar hm_empty" by (simp add: hm_invar_def hm_empty_def)
next
  fix m :: "('a, 'b) hmap" and k v assume "hm_invar m"
  then show "hm_invar (hm_insert k v m)"
    by (simp add: hm_invar_def hm_insert_def distinct_update)
next
  fix m :: "('a, 'b) hmap" and k assume "hm_invar m"
  then show "hm_invar (hm_remove k m)"
    by (simp add: hm_invar_def hm_remove_def distinct_delete)
next
  fix m :: "('a, 'b) hmap" and P assume "hm_invar m"
  then show "hm_invar (hm_retain P m)"
    by (simp add: hm_invar_def hm_retain_def distinct_map_filter)
next
  show "hm_get hm_empty = Map.empty" by (rule ext) (simp add: hm_get_def hm_empty_def)
next
  fix m :: "('a, 'b) hmap" and k v
  show "hm_get (hm_insert k v m) = (hm_get m)(k \<mapsto> v)"
    by (rule ext) (simp add: hm_get_def hm_insert_def update_conv)
next
  fix m :: "('a, 'b) hmap" and k
  show "hm_get (hm_remove k m) = (hm_get m)(k := None)"
    by (rule ext) (simp add: hm_get_def hm_remove_def delete_conv)
next
  fix m :: "('a, 'b) hmap" and P k assume "hm_invar m"
  then show "hm_get (hm_retain P m) k =
      (case hm_get m k of Some v \<Rightarrow> if P k v then Some v else None | None \<Rightarrow> None)"
    by (simp add: hm_invar_def hm_get_def hm_retain_def map_of_filter_distinct)
next
  fix m :: "('a, 'b) hmap"
  have dom: "dom (hm_get m) = fst ` set m"
    by (simp add: hm_get_def [abs_def] dom_map_of_conv_image_fst)
  then show "finite (dom (hm_get m))" by simp
  assume "hm_invar m"
  with dom show "hm_len m = card (dom (hm_get m))"
    by (metis hm_invar_def hm_len_def distinct_card length_map set_map)
qed

lemmas hm_invars [simp, intro] = hm.invar_empty hm.invar_insert hm.invar_remove hm.invar_retain
lemmas hm_gets = hm.get_empty hm.get_insert hm.get_remove hm.get_retain

lemma hm_keys_get: "k \<in> set (hm_keys m) \<longleftrightarrow> hm_get m k \<noteq> None"
  by (auto simp: hm_keys_def hm_get_def map_of_eq_None_iff)

lemma hm_get_entry: "hm_invar m \<Longrightarrow> (k, v) \<in> set m \<longleftrightarrow> hm_get m k = Some v"
  by (simp add: hm_invar_def hm_get_def)

lemma hm_collect_snoc: "hm_collect (kvs @ [(k, v)]) = hm_insert k v (hm_collect kvs)"
  by (simp add: hm_collect_def)

lemma hm_invar_collect [simp]: "hm_invar (hm_collect kvs)"
  by (induction kvs rule: rev_induct) (auto simp: hm_collect_snoc hm_collect_def)

lemma hm_get_collect: "hm_get (hm_collect kvs) = map_of (rev kvs)"
proof (induction kvs rule: rev_induct)
  case Nil
  then show ?case by (simp add: hm_collect_def hm.get_empty)
next
  case (snoc kv kvs)
  then show ?case by (cases kv) (simp add: hm_collect_snoc hm.get_insert)
qed

end
