(* ===== verification/Filter_Set.thy ===== *)
theory Filter_Set
  imports Hash_Map
begin

text \<open>
  \<open>FilterSet\<close> and \<open>first_signature\<close> of \<open>src/proxy/mod.rs\<close>: the set of transaction signatures the
  Inertia server asked the relayer to hold back, each with the instant of its last insertion. The
  length of the map is mirrored in an atomic that readers consult without taking the lock.

  The first part is the sequential model and its refinement of a partial map; the second is the
  interleaving model in which the map update and the store to the atomic are separate steps.
  Where the code reads the clock the reading is an argument; \<open>retain\<close> reads it once per entry,
  so \<open>sweep\<close> takes a reading for each signature.
\<close>

type_synonym signature = bytes

record filter_set =
  fs_map :: "(signature, instant) hmap"
  fs_len :: nat

definition TTL :: duration where
  "TTL = from_secs 2"

definition filter_set_default :: filter_set where
  "filter_set_default = \<lparr>fs_map = hm_empty, fs_len = 0\<rparr>"

definition fs_insert :: "instant \<Rightarrow> signature \<Rightarrow> filter_set \<Rightarrow> filter_set" where
  "fs_insert now sig fs =
     (let m = hm_insert sig now (fs_map fs)
      in fs\<lparr>fs_map := m, fs_len := hm_len m\<rparr>)"

definition fs_is_empty :: "filter_set \<Rightarrow> bool" where
  "fs_is_empty fs \<longleftrightarrow> fs_len fs = 0"

definition fs_locked :: "filter_set \<Rightarrow> (signature, instant) hmap" where
  "fs_locked fs = fs_map fs"

definition fs_sweep :: "(signature \<Rightarrow> instant) \<Rightarrow> filter_set \<Rightarrow> filter_set" where
  "fs_sweep clk fs =
     (if fs_is_empty fs then fs
      else let m = hm_retain (\<lambda>sig at. elapsed (clk sig) at < TTL) (fs_map fs)
           in fs\<lparr>fs_map := m, fs_len := hm_len m\<rparr>)"

definition first_signature :: "bytes \<Rightarrow> signature option" where
  "first_signature data =
     (case slice_get data 1 65 of None \<Rightarrow> None | Some s \<Rightarrow> array_try_from 64 s)"

lemma first_signature_eq:
  "first_signature data = (if 65 \<le> length data then Some (take 64 (drop 1 data)) else None)"
  by (simp add: first_signature_def rust_defs)

lemma first_signature_length: "first_signature data = Some sig \<Longrightarrow> length sig = 64"
  by (auto simp: first_signature_eq split: if_splits)

section \<open>The type invariant\<close>

definition fs_wf :: "filter_set \<Rightarrow> bool" where
  "fs_wf fs \<longleftrightarrow> hm_invar (fs_map fs) \<and> fs_len fs = hm_len (fs_map fs)"

definition fs_blocks :: "filter_set \<Rightarrow> signature \<Rightarrow> bool" where
  "fs_blocks fs sig \<longleftrightarrow> hm_contains_key (fs_locked fs) sig"

lemma fs_wf_default [simp]: "fs_wf filter_set_default"
  by (simp add: fs_wf_def filter_set_default_def hm_len_def hm_empty_def hm_invar_def)

lemma fs_wf_insert [intro]: "fs_wf fs \<Longrightarrow> fs_wf (fs_insert now sig fs)"
  by (simp add: fs_wf_def fs_insert_def Let_def)

lemma fs_wf_sweep [intro]: "fs_wf fs \<Longrightarrow> fs_wf (fs_sweep clk fs)"
  by (simp add: fs_wf_def fs_sweep_def Let_def)

lemma fs_is_empty_blocks: "fs_wf fs \<Longrightarrow> fs_is_empty fs \<longleftrightarrow> (\<forall>sig. \<not> fs_blocks fs sig)"
  using hm.len_eq_0_iff [of "fs_map fs"]
  by (auto simp: fs_wf_def fs_is_empty_def fs_blocks_def fs_locked_def hm_contains_key_def)

section \<open>Refinement of a partial map\<close>

text \<open>
  The abstract filter is the partial map from a signature to its last insertion. The specification
  of a sweep has no early return and no length.
\<close>

datatype fs_op = Insert instant signature | Sweep "signature \<Rightarrow> instant"

fun fs_step :: "fs_op \<Rightarrow> filter_set \<Rightarrow> filter_set" where
  "fs_step (Insert now sig) fs = fs_insert now sig fs"
| "fs_step (Sweep clk) fs = fs_sweep clk fs"

definition fs_run :: "fs_op list \<Rightarrow> filter_set \<Rightarrow> filter_set" where
  "fs_run ops fs = fold fs_step ops fs"

type_synonym filter_spec = "signature \<rightharpoonup> instant"

definition fs_abs :: "filter_set \<Rightarrow> filter_spec" where
  "fs_abs fs = hm_get (fs_map fs)"

fun spec_step :: "fs_op \<Rightarrow> filter_spec \<Rightarrow> filter_spec" where
  "spec_step (Insert now sig) m = m(sig \<mapsto> now)"
| "spec_step (Sweep clk) m =
     (\<lambda>sig. case m sig of None \<Rightarrow> None
        | Some at \<Rightarrow> if clk sig < at + TTL then Some at else None)"

lemma TTL_pos [simp]: "0 < TTL"
  by (simp add: TTL_def from_secs_def)

lemma elapsed_less_TTL: "elapsed now at < TTL \<longleftrightarrow> now < at + TTL"
  using TTL_pos by (auto simp: elapsed_def simp del: TTL_pos)

lemma fs_blocks_abs: "fs_blocks fs sig \<longleftrightarrow> fs_abs fs sig \<noteq> None"
  by (simp add: fs_blocks_def fs_abs_def fs_locked_def hm_contains_key_def)

lemma fs_wf_step [intro]: "fs_wf fs \<Longrightarrow> fs_wf (fs_step op fs)"
  by (cases op) auto

lemma fs_wf_run [intro]: "fs_wf fs \<Longrightarrow> fs_wf (fs_run ops fs)"
  unfolding fs_run_def by (induction ops arbitrary: fs) auto

lemma fs_abs_empty: "fs_wf fs \<Longrightarrow> fs_is_empty fs \<Longrightarrow> fs_abs fs = Map.empty"
  using hm.len_eq_0_iff [of "fs_map fs"] by (simp add: fs_wf_def fs_is_empty_def fs_abs_def)

lemma fs_abs_default [simp]: "fs_abs filter_set_default = Map.empty"
  by (simp add: fs_abs_def filter_set_default_def hm.get_empty)

lemma fs_abs_step: "fs_wf fs \<Longrightarrow> fs_abs (fs_step op fs) = spec_step op (fs_abs fs)"
proof (cases op)
  case (Insert now sig)
  assume "fs_wf fs"
  with Insert show ?thesis
    by (simp add: fs_abs_def fs_insert_def Let_def fs_wf_def hm.get_insert)
next
  case (Sweep clk)
  assume wf: "fs_wf fs"
  show ?thesis
  proof (cases "fs_is_empty fs")
    case True
    then show ?thesis
      using Sweep fs_abs_empty [OF wf True] by (simp add: fs_sweep_def)
  next
    case False
    then show ?thesis
      using Sweep wf
      by (auto simp: fs_abs_def fs_sweep_def Let_def fs_wf_def hm.get_retain elapsed_less_TTL
          fun_eq_iff split: option.splits)
  qed
qed

lemma fs_abs_run: "fs_wf fs \<Longrightarrow> fs_abs (fs_run ops fs) = fold spec_step ops (fs_abs fs)"
  unfolding fs_run_def
  by (induction ops arbitrary: fs) (simp_all add: fs_abs_step fs_wf_step)

text \<open>
  An insertion of \<open>sig\<close> at \<open>t\<close> is in force after the operations \<open>post\<close> when none of them inserts
  \<open>sig\<close> again and every sweep among them read a clock short of \<open>t + TTL\<close> at that entry.
\<close>

fun in_force :: "signature \<Rightarrow> instant \<Rightarrow> fs_op list \<Rightarrow> bool" where
  "in_force sig t [] = True"
| "in_force sig t (Insert now sig' # post) = (sig' \<noteq> sig \<and> in_force sig t post)"
| "in_force sig t (Sweep clk # post) = (clk sig < t + TTL \<and> in_force sig t post)"

lemma in_force_append [simp]:
  "in_force sig t (xs @ ys) \<longleftrightarrow> in_force sig t xs \<and> in_force sig t ys"
  by (induction xs rule: in_force.induct) auto

lemma in_force_kept: "in_force sig t post \<Longrightarrow> m sig = Some t \<Longrightarrow> fold spec_step post m sig = Some t"
proof (induction post arbitrary: m)
  case (Cons op post)
  then show ?case by (cases op) auto
qed simp

lemma spec_run_origin:
  "fold spec_step ops Map.empty sig = Some t \<Longrightarrow>
   \<exists>pre post. ops = pre @ Insert t sig # post \<and> in_force sig t post"
proof (induction ops arbitrary: t rule: rev_induct)
  case (snoc op ops)
  show ?case
  proof (cases "op = Insert t sig")
    case True
    then show ?thesis by fastforce
  next
    case False
    with snoc.prems have kept: "fold spec_step ops Map.empty sig = Some t"
      and force: "in_force sig t [op]"
      by (cases op; auto split: option.splits if_splits)+
    from snoc.IH [OF kept] obtain pre post
      where "ops = pre @ Insert t sig # post" and "in_force sig t post" by blast
    with force have "ops @ [op] = pre @ Insert t sig # (post @ [op])"
      and "in_force sig t (post @ [op])" by simp_all
    then show ?thesis by blast
  qed
qed simp

text \<open>
  A weaker condition that is enough for a signature to stay blocked: insertions, of the same signature
  too, may follow as long as the clock does not run backwards.
\<close>

fun no_expiry :: "signature \<Rightarrow> instant \<Rightarrow> fs_op list \<Rightarrow> bool" where
  "no_expiry sig t [] = True"
| "no_expiry sig t (Insert now sig' # post) = ((sig' = sig \<longrightarrow> t \<le> now) \<and> no_expiry sig t post)"
| "no_expiry sig t (Sweep clk # post) = (clk sig < t + TTL \<and> no_expiry sig t post)"

lemma no_expiry_kept:
  "no_expiry sig t post \<Longrightarrow> m sig = Some t0 \<Longrightarrow> t \<le> t0 \<Longrightarrow> \<exists>t'. fold spec_step post m sig = Some t'"
proof (induction post arbitrary: m t0)
  case (Cons op post)
  have rest: "no_expiry sig t post" using Cons.prems(1) by (cases op) simp_all
  have "\<exists>t1. spec_step op m sig = Some t1 \<and> t \<le> t1"
    using Cons.prems by (cases op) auto
  then obtain t1 where "spec_step op m sig = Some t1" and "t \<le> t1" by blast
  then show ?case using Cons.IH [OF rest, of "spec_step op m" t1] by simp
qed simp

lemma fs_run_keeps_blocked:
  assumes "fs_wf fs" and "no_expiry sig t post"
  shows "fs_blocks (fs_run post (fs_insert t sig fs)) sig"
proof -
  have "fs_abs (fs_insert t sig fs) sig = Some t"
    using fs_abs_step [OF assms(1), of "Insert t sig"] by simp
  then show ?thesis
    using no_expiry_kept [OF assms(2), of "fs_abs (fs_insert t sig fs)" t]
      fs_abs_run [OF fs_wf_insert [OF assms(1)]]
    by (auto simp: fs_blocks_abs)
qed

lemma fs_blocks_in_force:
  "fs_blocks (fs_run ops filter_set_default) sig \<longleftrightarrow>
   (\<exists>t pre post. ops = pre @ Insert t sig # post \<and> in_force sig t post)"
proof -
  have abs: "fs_abs (fs_run ops filter_set_default) = fold spec_step ops Map.empty"
    using fs_abs_run [of filter_set_default ops] by simp
  have "fold spec_step ops Map.empty sig = Some t"
    if "ops = pre @ Insert t sig # post" and "in_force sig t post" for t pre post
    using that by (simp add: in_force_kept)
  then show ?thesis
    using abs spec_run_origin [of ops sig] by (auto simp: fs_blocks_abs)
qed

text \<open>
  C17: after any sequence of insertions and sweeps of a fresh filter set, a signature is blocked
  exactly when one of the insertions put it in and it is still in force: not swept by a clock
  reading at least two seconds after that insertion.
\<close>

theorem fs_blocks_iff_in_force:
  "fs_blocks (fs_run ops filter_set_default) sig \<longleftrightarrow>
   (\<exists>t pre post. ops = pre @ Insert t sig # post \<and> in_force sig t post)"
  by (rule fs_blocks_in_force)

text \<open>
  The lock-free emptiness test is exact after every sequence of operations: \<open>is_empty\<close> answers
  true exactly when the filter set blocks no signature, so the fast path of the filters never
  lets a blocked signature through.
\<close>

theorem fs_is_empty_exact:
  "fs_is_empty (fs_run ops filter_set_default) \<longleftrightarrow>
   (\<forall>sig. \<not> fs_blocks (fs_run ops filter_set_default) sig)"
  using fs_wf_run [of filter_set_default ops] by (intro fs_is_empty_blocks) simp

section \<open>The interleaving with lock-free readers\<close>

text \<open>
  The atomic length is stored while the lock is held, after the map has changed; a reader may load
  it between the two. The phase says how far the holder of the lock has come. A sweep takes the
  lock after its own unlocked test, whose answer may be stale by then; the model lets it start at
  any moment the lock is free.
\<close>

datatype fs_phase = Free | WillInsert instant signature | WillSweep "signature \<Rightarrow> instant"
  | Dirty | Stored | Reading

record fs_shared =
  sh_map :: "(signature, instant) hmap"
  sh_len :: nat
  sh_phase :: fs_phase

definition sh_init :: fs_shared where
  "sh_init = \<lparr>sh_map = hm_empty, sh_len = 0, sh_phase = Free\<rparr>"

inductive sh_step :: "fs_shared \<Rightarrow> fs_shared \<Rightarrow> bool" where
  insert_lock: "sh_phase s = Free \<Longrightarrow> sh_step s (s\<lparr>sh_phase := WillInsert now sig\<rparr>)"
| insert_map: "sh_phase s = WillInsert now sig \<Longrightarrow>
    sh_step s (s\<lparr>sh_map := hm_insert sig now (sh_map s), sh_phase := Dirty\<rparr>)"
| sweep_lock: "sh_phase s = Free \<Longrightarrow> sh_step s (s\<lparr>sh_phase := WillSweep clk\<rparr>)"
| sweep_map: "sh_phase s = WillSweep clk \<Longrightarrow>
    sh_step s (s\<lparr>sh_map := hm_retain (\<lambda>sig at. elapsed (clk sig) at < TTL) (sh_map s),
      sh_phase := Dirty\<rparr>)"
| store_len: "sh_phase s = Dirty \<Longrightarrow>
    sh_step s (s\<lparr>sh_len := hm_len (sh_map s), sh_phase := Stored\<rparr>)"
| unlock: "sh_phase s = Stored \<Longrightarrow> sh_step s (s\<lparr>sh_phase := Free\<rparr>)"
| read_lock: "sh_phase s = Free \<Longrightarrow> sh_step s (s\<lparr>sh_phase := Reading\<rparr>)"
| read_unlock: "sh_phase s = Reading \<Longrightarrow> sh_step s (s\<lparr>sh_phase := Free\<rparr>)"

inductive sh_reach :: "fs_shared \<Rightarrow> bool" where
  sh_start: "sh_reach sh_init"
| sh_next: "sh_reach s \<Longrightarrow> sh_step s t \<Longrightarrow> sh_reach t"

definition sh_inv :: "fs_shared \<Rightarrow> bool" where
  "sh_inv s \<longleftrightarrow> hm_invar (sh_map s) \<and> (sh_phase s \<noteq> Dirty \<longrightarrow> sh_len s = hm_len (sh_map s))"

lemma sh_inv_init: "sh_inv sh_init"
  by (simp add: sh_inv_def sh_init_def hm_len_def hm_empty_def hm_invar_def)

lemma sh_inv_step: "sh_step s t \<Longrightarrow> sh_inv s \<Longrightarrow> sh_inv t"
  by (induction rule: sh_step.induct) (auto simp: sh_inv_def)

lemma sh_inv_reach: "sh_reach s \<Longrightarrow> sh_inv s"
  by (induction rule: sh_reach.induct) (auto intro: sh_inv_init sh_inv_step)

text \<open>
  C18: in every interleaving of insertions, sweeps and readers, the length a reader loads without
  the lock tells whether the map is empty, except while a writer sits between its map update and
  its store; so whoever holds the lock after a load of zero outside that window sees no entry.
\<close>

theorem sh_len_zero_iff:
  assumes "sh_reach s" and "sh_phase s \<noteq> Dirty"
  shows "sh_len s = 0 \<longleftrightarrow> (\<forall>sig. \<not> hm_contains_key (sh_map s) sig)"
proof -
  have "hm_invar (sh_map s)" and "sh_len s = hm_len (sh_map s)"
    using sh_inv_reach [OF assms(1)] assms(2) by (simp_all add: sh_inv_def)
  then show ?thesis
    using hm.len_eq_0_iff [of "sh_map s"] by (auto simp: hm_contains_key_def)
qed

theorem sh_len_zero_iff_witness:
  "sh_len \<lparr>sh_map = [([7], 5)], sh_len = 1, sh_phase = Stored\<rparr> = 0 \<longleftrightarrow>
   (\<forall>sig. \<not> hm_contains_key (sh_map \<lparr>sh_map = [([7], 5)], sh_len = 1, sh_phase = Stored\<rparr>) sig)"
proof (rule sh_len_zero_iff)
  have "sh_step sh_init (sh_init\<lparr>sh_phase := WillInsert 5 [7]\<rparr>)"
    by (rule insert_lock) (simp add: sh_init_def)
  then have 1: "sh_reach \<lparr>sh_map = [], sh_len = 0, sh_phase = WillInsert 5 [7]\<rparr>"
    using sh_next [OF sh_start] by (simp add: sh_init_def hm_empty_def)
  have 2: "sh_reach \<lparr>sh_map = [([7], 5)], sh_len = 0, sh_phase = Dirty\<rparr>"
    using sh_next [OF 1 insert_map [of _ 5 "[7]"]] by (simp add: hm_insert_def)
  show "sh_reach \<lparr>sh_map = [([7], 5)], sh_len = 1, sh_phase = Stored\<rparr>"
    using sh_next [OF 2 store_len] by (simp add: hm_len_def)
qed simp

end
