(* ===== verification/Ip_Addr.thy ===== *)
theory Ip_Addr
  imports Prelude
begin

text \<open>
  \<open>std::net::IpAddr\<close> and its \<open>Display\<close>, as the code uses them when it prints the address of a
  packet, of the relayer's sockets and of an authenticated client: dotted decimal for IPv4; for IPv6
  the eight groups in lower-case hexadecimal with the first longest run of two or more zero groups
  written \<open>::\<close>, and IPv4-mapped addresses as \<open>::ffff:a.b.c.d\<close>.
\<close>

datatype ip_addr =
    V4 u8 u8 u8 u8
  | V6 u16 u16 u16 u16 u16 u16 u16 u16

type_synonym socket_addr = "ip_addr \<times> u16"

section \<open>Numerals\<close>

definition digit_char :: "nat \<Rightarrow> char" where
  "digit_char d = (if d < 10 then char_of (48 + d) else char_of (87 + d))"

fun show_base :: "nat \<Rightarrow> nat \<Rightarrow> string" where
  "show_base b n = (if n < b \<or> b < 2 then [digit_char n] else show_base b (n div b) @ [digit_char (n mod b)])"

declare show_base.simps [simp del]

abbreviation show_dec :: "nat \<Rightarrow> string" where
  "show_dec \<equiv> show_base 10"

abbreviation show_hex :: "nat \<Rightarrow> string" where
  "show_hex \<equiv> show_base 16"

section \<open>Display\<close>

fun show_v4 :: "u8 \<Rightarrow> u8 \<Rightarrow> u8 \<Rightarrow> u8 \<Rightarrow> string" where
  "show_v4 a b c d = show_dec (unat a) @ ''.'' @ show_dec (unat b) @ ''.'' @ show_dec (unat c) @
     ''.'' @ show_dec (unat d)"

text \<open>\<open>fmt_subslice\<close>: the groups in hexadecimal with a colon between them.\<close>

fun show_groups :: "u16 list \<Rightarrow> string" where
  "show_groups [] = ''''"
| "show_groups [g] = show_hex (unat g)"
| "show_groups (g # gs) = show_hex (unat g) @ '':'' @ show_groups gs"

text \<open>
  The scan for the first longest run of zero groups: \<open>i\<close> is the index, \<open>(cs, cl)\<close> start and length of
  the current run, \<open>(ls, ll)\<close> those of the longest so far.
\<close>

fun zero_span :: "nat \<Rightarrow> u16 list \<Rightarrow> nat \<times> nat \<Rightarrow> nat \<times> nat \<Rightarrow> nat \<times> nat" where
  "zero_span i [] cur longest = longest"
| "zero_span i (g # gs) (cs, cl) (ls, ll) =
     (if g = 0
      then let cs' = (if cl = 0 then i else cs); cl' = Suc cl
           in zero_span (Suc i) gs (cs', cl') (if ll < cl' then (cs', cl') else (ls, ll))
      else zero_span (Suc i) gs (0, 0) (ls, ll))"

fun to_ipv4_mapped :: "u16 list \<Rightarrow> (u16 \<times> u16) option" where
  "to_ipv4_mapped [a, b, c, d, e, f, g, h] =
     (if [a, b, c, d, e] = [0, 0, 0, 0, 0] \<and> f = 0xffff then Some (g, h) else None)"
| "to_ipv4_mapped _ = None"

definition show_v6 :: "u16 list \<Rightarrow> string" where
  "show_v6 gs =
     (case to_ipv4_mapped gs of
        Some (g, h) \<Rightarrow> ''::ffff:'' @
          show_v4 (ucast (drop_bit 8 g)) (ucast g) (ucast (drop_bit 8 h)) (ucast h)
      | None \<Rightarrow>
          (case zero_span 0 gs (0, 0) (0, 0) of (s, l) \<Rightarrow>
            if 1 < l then show_groups (take s gs) @ ''::'' @ show_groups (drop (s + l) gs)
            else show_groups gs))"

fun ip_to_string :: "ip_addr \<Rightarrow> string" where
  "ip_to_string (V4 a b c d) = show_v4 a b c d"
| "ip_to_string (V6 a b c d e f g h) = show_v6 [a, b, c, d, e, f, g, h]"

end
