(* ===== verification/Packets.thy ===== *)
theory Packets
  imports Ip_Addr
begin

text \<open>
  The data that flows through the relayer: the validator's packets, whose metadata the code reads
  and whose discard flag it sets, and the protobuf messages generated from
  \<open>src/protos/protos/*.proto\<close>. The conversion \<open>packet_to_proto_packet\<close> of
  \<open>src/protos/convert.rs\<close> is here too.

  A packet is its metadata and a buffer of an unspecified type \<open>'b\<close>. \<open>PacketRef::data(..)\<close> belongs
  to the validator's libraries: it is the parameter \<open>pdata\<close> of every definition that reads a
  packet's bytes.
\<close>

record meta =
  mt_size :: nat
  mt_addr :: ip_addr
  mt_port :: u16
  mt_discard :: bool
  mt_forwarded :: bool
  mt_repair :: bool
  mt_simple_vote_tx :: bool
  mt_perf_track :: bool
  mt_from_staked_node :: bool

record 'b packet =
  pk_meta :: meta
  pk_buffer :: 'b

type_synonym 'b pdata = "'b packet \<Rightarrow> bytes option"
type_synonym 'b packet_batch = "'b packet list"
type_synonym 'b banking_batch = "'b packet_batch list"

abbreviation discard :: "'b packet \<Rightarrow> bool" where
  "discard p \<equiv> mt_discard (pk_meta p)"

definition set_discard :: "bool \<Rightarrow> 'b packet \<Rightarrow> 'b packet" where
  "set_discard b p = p\<lparr>pk_meta := (pk_meta p)\<lparr>mt_discard := b\<rparr>\<rparr>"

lemma discard_set_discard [simp]: "discard (set_discard b p) = b"
  by (simp add: set_discard_def)

lemma set_discard_same: "discard p = b \<Longrightarrow> set_discard b p = p"
  by (auto simp: set_discard_def)

lemma pk_buffer_set_discard [simp]: "pk_buffer (set_discard b p) = pk_buffer p"
  by (simp add: set_discard_def)

section \<open>Protobuf messages\<close>

record proto_flags =
  pf_discard :: bool
  pf_forwarded :: bool
  pf_repair :: bool
  pf_simple_vote_tx :: bool
  pf_tracer_packet :: bool
  pf_from_staked_node :: bool

record proto_meta =
  pm_size :: u64
  pm_addr :: string
  pm_port :: u32
  pm_flags :: "proto_flags option"
  pm_sender_stake :: u64

record proto_packet =
  pp_data :: bytes
  pp_meta :: "proto_meta option"

record proto_batch =
  pb_packets :: "proto_packet list"

record timestamp =
  ts_seconds :: int
  ts_nanos :: int

record proto_header =
  hd_ts :: "timestamp option"

record be_packets_response =
  bp_header :: "proto_header option"
  bp_batch :: "proto_batch option"

record proto_bundle =
  bn_header :: "proto_header option"
  bn_packets :: "proto_packet list"

record bundle_uuid =
  bu_bundle :: "proto_bundle option"
  bu_uuid :: string

record be_bundles_response =
  bb_bundles :: "bundle_uuid list"

datatype relayer_msg = Heartbeat u64 | Batch proto_batch

record relayer_response =
  rr_header :: "proto_header option"
  rr_msg :: "relayer_msg option"

section \<open>packet_to_proto_packet\<close>

definition packet_to_proto_packet :: "'b pdata \<Rightarrow> 'b packet \<Rightarrow> proto_packet option" where
  "packet_to_proto_packet pdata p =
     (case pdata p of None \<Rightarrow> None
      | Some data \<Rightarrow> Some \<lparr>pp_data = data,
          pp_meta = Some \<lparr>pm_size = of_nat (mt_size (pk_meta p)),
            pm_addr = ip_to_string (mt_addr (pk_meta p)),
            pm_port = ucast (mt_port (pk_meta p)),
            pm_flags = Some \<lparr>pf_discard = mt_discard (pk_meta p),
              pf_forwarded = mt_forwarded (pk_meta p),
              pf_repair = mt_repair (pk_meta p),
              pf_simple_vote_tx = mt_simple_vote_tx (pk_meta p),
              pf_tracer_packet = mt_perf_track (pk_meta p),
              pf_from_staked_node = mt_from_staked_node (pk_meta p)\<rparr>,
            pm_sender_stake = 0\<rparr>\<rparr>)"

lemma packet_to_proto_packet_Some:
  "packet_to_proto_packet pdata p = Some q \<Longrightarrow> pdata p = Some (pp_data q)"
  by (auto simp: packet_to_proto_packet_def split: option.splits)

lemma packet_to_proto_packet_None [simp]:
  "packet_to_proto_packet pdata p = None \<longleftrightarrow> pdata p = None"
  by (simp add: packet_to_proto_packet_def split: option.splits)

text \<open>
  The metadata a validator can read back from the message: size modulo \<open>2 ^ 64\<close>, address, port and
  every flag.
\<close>

definition proto_meta_agrees :: "meta \<Rightarrow> proto_meta \<Rightarrow> bool" where
  "proto_meta_agrees m pm \<longleftrightarrow>
     unat (pm_size pm) = mt_size m mod 2 ^ 64 \<and> pm_addr pm = ip_to_string (mt_addr m) \<and>
     unat (pm_port pm) = unat (mt_port m) \<and>
     (\<exists>f. pm_flags pm = Some f \<and> pf_discard f = mt_discard m \<and> pf_forwarded f = mt_forwarded m \<and>
        pf_repair f = mt_repair m \<and> pf_simple_vote_tx f = mt_simple_vote_tx m \<and>
        pf_tracer_packet f = mt_perf_track m \<and> pf_from_staked_node f = mt_from_staked_node m)"

lemma unat_ucast_u16_u32: "unat (ucast (w :: u16) :: u32) = unat w"
proof -
  have "unat w < 2 ^ LENGTH(16)" by (rule unsigned_less)
  then show ?thesis by (simp add: unsigned_ucast_eq take_bit_nat_eq_self)
qed

lemma packet_to_proto_packet_meta:
  "packet_to_proto_packet pdata p = Some q \<Longrightarrow>
   \<exists>pm. pp_meta q = Some pm \<and> proto_meta_agrees (pk_meta p) pm"
  by (auto simp: packet_to_proto_packet_def proto_meta_agrees_def unat_of_nat unat_ucast_u16_u32
      split: option.splits)

end
