(* ===== verification/Proxy_Filter.thy ===== *)
theory Proxy_Filter
  imports Filter_Set Packets
begin

text \<open>
  The three release filters of \<open>src/proxy/mod.rs\<close>: \<open>discard_filtered\<close> for the batches of the TPU,
  \<open>filter_be_packets\<close> and \<open>filter_be_bundles\<close> for the two streams of the block engine. The locale
  \<open>release_filter\<close> is their common contract and carries what follows from it; each filter interprets
  it.
\<close>

section \<open>discard_filtered\<close>

definition hits :: "(signature, instant) hmap \<Rightarrow> bytes option \<Rightarrow> bool" where
  "hits blocked data \<longleftrightarrow>
     (case data of None \<Rightarrow> False
      | Some d \<Rightarrow> (case first_signature d of None \<Rightarrow> False
          | Some sig \<Rightarrow> hm_contains_key blocked sig))"

definition discard_packet ::
  "'b pdata \<Rightarrow> (signature, instant) hmap \<Rightarrow> 'b packet \<Rightarrow> 'b packet" where
  "discard_packet pdata blocked p =
     (if discard p then p
      else if hits blocked (pdata p) then set_discard True p
      else p)"

definition discard_filtered ::
  "'b pdata \<Rightarrow> filter_set \<Rightarrow> 'b banking_batch \<Rightarrow> 'b banking_batch" where
  "discard_filtered pdata fs batch =
     (if fs_is_empty fs then batch
      else map (map (discard_packet pdata (fs_locked fs))) batch)"

section \<open>filter_be_packets and filter_be_bundles\<close>

definition filter_be_packets :: "filter_set \<Rightarrow> be_packets_response \<Rightarrow> be_packets_response" where
  "filter_be_packets fs resp =
     (if fs_is_empty fs then resp
      else case bp_batch resp of
          None \<Rightarrow> resp
        | Some batch \<Rightarrow> resp\<lparr>bp_batch := Some (batch\<lparr>pb_packets :=
            filter (\<lambda>p. case first_signature (pp_data p) of None \<Rightarrow> True
                      | Some sig \<Rightarrow> \<not> hm_contains_key (fs_locked fs) sig) (pb_packets batch)\<rparr>)\<rparr>)"

definition bundle_hit :: "(signature, instant) hmap \<Rightarrow> bundle_uuid \<Rightarrow> bool" where
  "bundle_hit blocked bu \<longleftrightarrow>
     (case bu_bundle bu of None \<Rightarrow> False
      | Some b \<Rightarrow> list_ex (\<lambda>p. case first_signature (pp_data p) of None \<Rightarrow> False
                     | Some sig \<Rightarrow> hm_contains_key blocked sig) (bn_packets b))"

definition filter_be_bundles :: "filter_set \<Rightarrow> be_bundles_response \<Rightarrow> be_bundles_response" where
  "filter_be_bundles fs resp =
     (if fs_is_empty fs then resp
      else resp\<lparr>bb_bundles := filter (\<lambda>bu. \<not> bundle_hit (fs_locked fs) bu) (bb_bundles resp)\<rparr>)"

section \<open>What an item carries\<close>

text \<open>
  The units a response consists of and the signatures of each unit. A unit is what a filter keeps
  or takes out as a whole: a packet that is not marked discard, a packet of a block engine batch, a
  bundle.
\<close>

definition data_sigs :: "bytes \<Rightarrow> signature set" where
  "data_sigs d = set_option (first_signature d)"

definition batch_units :: "'b banking_batch \<Rightarrow> 'b packet list" where
  "batch_units batch = filter (\<lambda>p. \<not> discard p) (concat batch)"

definition batch_unit_sigs :: "'b pdata \<Rightarrow> 'b packet \<Rightarrow> signature set" where
  "batch_unit_sigs pdata p = (case pdata p of None \<Rightarrow> {} | Some d \<Rightarrow> data_sigs d)"

definition be_packet_units :: "be_packets_response \<Rightarrow> proto_packet list" where
  "be_packet_units resp = (case bp_batch resp of None \<Rightarrow> [] | Some b \<Rightarrow> pb_packets b)"

definition be_packet_unit_sigs :: "proto_packet \<Rightarrow> signature set" where
  "be_packet_unit_sigs p = data_sigs (pp_data p)"

definition be_bundle_unit_sigs :: "bundle_uuid \<Rightarrow> signature set" where
  "be_bundle_unit_sigs bu =
     (case bu_bundle bu of None \<Rightarrow> {} | Some b \<Rightarrow> (\<Union>p \<in> set (bn_packets b). data_sigs (pp_data p)))"

text \<open>The contract: an empty filter changes nothing, any other keeps exactly the clean units.\<close>

locale release_filter =
  fixes filt :: "filter_set \<Rightarrow> 'a \<Rightarrow> 'a"
    and units :: "'a \<Rightarrow> 'u list"
    and sigs :: "'u \<Rightarrow> signature set"
  assumes filt_empty: "fs_is_empty fs \<Longrightarrow> filt fs x = x"
    and units_filt: "\<not> fs_is_empty fs \<Longrightarrow>
      units (filt fs x) = filter (\<lambda>u. \<forall>sig \<in> sigs u. \<not> fs_blocks fs sig) (units x)"
begin

lemma units_filt_wf:
  assumes "fs_wf fs"
  shows "units (filt fs x) = filter (\<lambda>u. \<forall>sig \<in> sigs u. \<not> fs_blocks fs sig) (units x)"
proof (cases "fs_is_empty fs")
  case True
  then have "\<forall>sig. \<not> fs_blocks fs sig"
    using assms by (simp add: fs_is_empty_blocks)
  then show ?thesis using True by (simp add: filt_empty)
next
  case False
  then show ?thesis by (rule units_filt)
qed

lemma no_blocked_unit:
  "fs_wf fs \<Longrightarrow> u \<in> set (units (filt fs x)) \<Longrightarrow> sig \<in> sigs u \<Longrightarrow> \<not> fs_blocks fs sig"
  by (simp add: units_filt_wf)

lemma clean_unit_kept:
  "fs_wf fs \<Longrightarrow> u \<in> set (units x) \<Longrightarrow> (\<And>sig. sig \<in> sigs u \<Longrightarrow> \<not> fs_blocks fs sig) \<Longrightarrow>
   u \<in> set (units (filt fs x))"
  by (auto simp: units_filt_wf)

lemma units_filt_twice:
  "fs_wf fs \<Longrightarrow> fs_wf fs' \<Longrightarrow>
   units (filt fs' (filt fs x)) =
     filter (\<lambda>u. \<forall>sig \<in> sigs u. \<not> fs_blocks fs sig \<and> \<not> fs_blocks fs' sig) (units x)"
  by (simp add: units_filt_wf conj_commute cong: filter_cong) (metis (lifting))

end

section \<open>The three filters meet the contract\<close>

lemma hits_iff: "hits (fs_locked fs) (pdata p) \<longleftrightarrow> (\<exists>sig \<in> batch_unit_sigs pdata p. fs_blocks fs sig)"
  by (auto simp: hits_def batch_unit_sigs_def data_sigs_def fs_blocks_def split: option.splits)

lemma discard_packet_discard:
  "discard (discard_packet pdata (fs_locked fs) p) \<longleftrightarrow>
   discard p \<or> (\<exists>sig \<in> batch_unit_sigs pdata p. fs_blocks fs sig)"
  by (simp add: discard_packet_def hits_iff)

lemma discard_packet_live:
  "\<not> discard (discard_packet pdata blocked p) \<Longrightarrow> discard_packet pdata blocked p = p"
  by (auto simp: discard_packet_def split: if_splits)

lemma live_discard_packets:
  "filter (\<lambda>p. \<not> discard p) (map (discard_packet pdata (fs_locked fs)) ps) =
   filter (\<lambda>p. \<forall>sig \<in> batch_unit_sigs pdata p. \<not> fs_blocks fs sig) (filter (\<lambda>p. \<not> discard p) ps)"
  by (induction ps) (use discard_packet_live in \<open>auto simp: discard_packet_discard\<close>)

interpretation bank: release_filter "discard_filtered pdata" batch_units "batch_unit_sigs pdata"
  for pdata
proof unfold_locales
  fix fs :: filter_set and x :: "'a banking_batch"
  show "discard_filtered pdata fs x = x" if "fs_is_empty fs"
    using that by (simp add: discard_filtered_def)
  show "batch_units (discard_filtered pdata fs x) =
      filter (\<lambda>u. \<forall>sig \<in> batch_unit_sigs pdata u. \<not> fs_blocks fs sig) (batch_units x)"
    if "\<not> fs_is_empty fs"
    using that live_discard_packets [of pdata fs "concat x"]
    by (simp add: discard_filtered_def batch_units_def map_concat)
qed

lemma be_packet_clean_iff:
  "(case first_signature (pp_data p) of None \<Rightarrow> True
     | Some sig \<Rightarrow> \<not> hm_contains_key (fs_locked fs) sig) \<longleftrightarrow>
   (\<forall>sig \<in> be_packet_unit_sigs p. \<not> fs_blocks fs sig)"
  by (simp add: be_packet_unit_sigs_def data_sigs_def fs_blocks_def split: option.splits)

interpretation bep: release_filter filter_be_packets be_packet_units be_packet_unit_sigs
  by unfold_locales
    (auto simp: filter_be_packets_def be_packet_units_def be_packet_clean_iff split: option.splits)

lemma bundle_hit_iff:
  "bundle_hit (fs_locked fs) bu \<longleftrightarrow> (\<exists>sig \<in> be_bundle_unit_sigs bu. fs_blocks fs sig)"
  by (auto simp: bundle_hit_def be_bundle_unit_sigs_def data_sigs_def fs_blocks_def list_ex_iff
      split: option.splits)

interpretation beb: release_filter filter_be_bundles bb_bundles be_bundle_unit_sigs
  by unfold_locales (auto simp: filter_be_bundles_def bundle_hit_iff)

text \<open>
  C19: \<open>discard_filtered\<close> marks and never removes. Batch by batch and packet by packet, its result is
  the packet with the discard flag set where it was set before or where the packet's first signature
  is blocked, and nothing else about any packet changes.
\<close>

theorem discard_filtered_exact:
  assumes "fs_wf fs"
  shows "list_all2 (list_all2 (\<lambda>p q. q = set_discard
      (discard p \<or> (\<exists>sig \<in> batch_unit_sigs pdata p. fs_blocks fs sig)) p))
    batch (discard_filtered pdata fs batch)"
proof -
  have packet: "discard_packet pdata (fs_locked fs) p = set_discard
      (discard p \<or> (\<exists>sig \<in> batch_unit_sigs pdata p. fs_blocks fs sig)) p" for p
    by (simp add: discard_packet_def hits_iff set_discard_same)
  have same: "p = set_discard (discard p \<or> (\<exists>sig \<in> batch_unit_sigs pdata p. fs_blocks fs sig)) p"
    if "fs_is_empty fs" for p
    using that assms by (simp add: fs_is_empty_blocks set_discard_same)
  show ?thesis
    by (auto simp: discard_filtered_def list_all2_map2 packet intro!: list_all2_refl dest: same)
qed

definition fs_example :: filter_set where
  "fs_example = fs_insert 5 (replicate 64 7) filter_set_default"

lemma fs_wf_example: "fs_wf fs_example"
  by (simp add: fs_example_def fs_wf_insert)

lemma fs_blocks_example: "fs_blocks fs_example sig \<longleftrightarrow> sig = replicate 64 7"
  using fs_abs_step [of filter_set_default "Insert 5 (replicate 64 7)"]
  by (auto simp: fs_example_def fs_blocks_abs)

definition meta_example :: meta where
  "meta_example = \<lparr>mt_size = 65, mt_addr = V4 127 0 0 1, mt_port = 9000, mt_discard = False,
     mt_forwarded = False, mt_repair = False, mt_simple_vote_tx = False, mt_perf_track = False,
     mt_from_staked_node = True\<rparr>"

definition packet_example :: "bytes \<Rightarrow> bytes packet" where
  "packet_example d = \<lparr>pk_meta = meta_example, pk_buffer = d\<rparr>"

theorem discard_filtered_exact_witness:
  "list_all2 (list_all2 (\<lambda>p q. q = set_discard
      (discard p \<or> (\<exists>sig \<in> batch_unit_sigs (\<lambda>p. Some (pk_buffer p)) p. fs_blocks fs_example sig)) p))
    [[packet_example (replicate 65 7), packet_example [1]]]
    (discard_filtered (\<lambda>p. Some (pk_buffer p)) fs_example
      [[packet_example (replicate 65 7), packet_example [1]]])"
  by (rule discard_filtered_exact [OF fs_wf_example])

text \<open>
  \<open>filter_be_packets\<close> takes out exactly the packets whose first signature is blocked: the header
  stays, a missing batch stays missing, and the packets that remain are the clean ones in their old
  order.
\<close>

theorem filter_be_packets_exact:
  assumes "fs_wf fs"
  shows "bp_header (filter_be_packets fs resp) = bp_header resp \<and>
    (bp_batch (filter_be_packets fs resp) = None \<longleftrightarrow> bp_batch resp = None) \<and>
    be_packet_units (filter_be_packets fs resp) =
      filter (\<lambda>p. \<forall>sig \<in> be_packet_unit_sigs p. \<not> fs_blocks fs sig) (be_packet_units resp)"
  using bep.units_filt_wf [OF assms, of resp]
  by (auto simp: filter_be_packets_def split: option.splits)

theorem filter_be_packets_exact_witness:
  "bp_header (filter_be_packets fs_example \<lparr>bp_header = None, bp_batch = None\<rparr>) = None"
  using filter_be_packets_exact [OF fs_wf_example, of "\<lparr>bp_header = None, bp_batch = None\<rparr>"] by simp

text \<open>
  \<open>filter_be_bundles\<close> treats a bundle as a whole: a bundle is passed on, unchanged and in its old
  position among the others, if and only if none of its packets carries a blocked first signature.
\<close>

theorem filter_be_bundles_exact:
  assumes "fs_wf fs"
  shows "bb_bundles (filter_be_bundles fs resp) =
    filter (\<lambda>bu. \<forall>b. bu_bundle bu = Some b \<longrightarrow>
      (\<forall>p \<in> set (bn_packets b). \<forall>sig. first_signature (pp_data p) = Some sig \<longrightarrow> \<not> fs_blocks fs sig))
      (bb_bundles resp)"
proof -
  have "(\<forall>sig \<in> be_bundle_unit_sigs bu. \<not> fs_blocks fs sig) \<longleftrightarrow>
    (\<forall>b. bu_bundle bu = Some b \<longrightarrow>
      (\<forall>p \<in> set (bn_packets b). \<forall>sig. first_signature (pp_data p) = Some sig \<longrightarrow> \<not> fs_blocks fs sig))"
    for bu
    by (auto simp: be_bundle_unit_sigs_def data_sigs_def elem_set split: option.splits)
  then show ?thesis using beb.units_filt_wf [OF assms, of resp] by simp
qed

definition bundle_example :: "bytes \<Rightarrow> bundle_uuid" where
  "bundle_example d = \<lparr>bu_bundle = Some \<lparr>bn_header = None,
     bn_packets = [\<lparr>pp_data = d, pp_meta = None\<rparr>]\<rparr>, bu_uuid = ''u''\<rparr>"

theorem filter_be_bundles_exact_witness:
  "bb_bundles (filter_be_bundles fs_example \<lparr>bb_bundles = [bundle_example [1], bundle_example (replicate 65 7)]\<rparr>)
   = [bundle_example [1]]"
  using filter_be_bundles_exact [OF fs_wf_example,
      of "\<lparr>bb_bundles = [bundle_example [1], bundle_example (replicate 65 7)]\<rparr>"]
  by (simp add: bundle_example_def first_signature_eq fs_blocks_example)

end
