(* ===== verification/Mirror.thy ===== *)
theory Mirror
  imports Proxy_Filter
begin

text \<open>
  The mirror of \<open>src/proxy/mirror.rs\<close>: the datagrams it sends to the Inertia server, the filter
  datagrams it takes in, its counters and their report, the control task and waiting for shutdown.
  The functions of \<open>src/proxy/mod.rs\<close> that feed it are here too.

  The QUIC connection and the system clock are outside the program: \<open>net\<close> holds the two calls as
  functions that read and update a world of an unspecified type \<open>'w\<close>. The counters are 64-bit
  and \<open>fetch_add\<close> wraps.
\<close>

section \<open>State\<close>

record mirror_stats =
  tpu_packets_sent :: u64
  be_packets_sent :: u64
  control_sent :: u64
  bundles_sent :: u64
  bundles_received :: u64
  filters_received :: u64
  dropped_oversized :: u64
  dropped_other :: u64

definition stats_default :: mirror_stats where
  "stats_default = \<lparr>tpu_packets_sent = 0, be_packets_sent = 0, control_sent = 0, bundles_sent = 0,
     bundles_received = 0, filters_received = 0, dropped_oversized = 0, dropped_other = 0\<rparr>"

record 'c mirror =
  mi_proxy_server :: socket_addr
  mi_inertia_server :: socket_addr
  mi_cert_pin :: bytes
  mi_conn :: "'c option"
  mi_filter_set :: filter_set
  mi_stats :: mirror_stats

datatype dgram_result = DgOk | DgTooLarge | DgOther

record ('c, 'w) net =
  nt_system_time :: "'w \<Rightarrow> int \<times> 'w"
  nt_send_datagram :: "'c \<Rightarrow> bytes \<Rightarrow> 'w \<Rightarrow> dgram_result \<times> 'w"

definition SOURCE_RELAYER :: u8 where "SOURCE_RELAYER = 0"
definition SOURCE_BLOCKENGINE :: u8 where "SOURCE_BLOCKENGINE = 1"
definition SOURCE_CONTROL :: u8 where "SOURCE_CONTROL = 2"
definition FILTER_TAG :: u8 where "FILTER_TAG = 0"

lemmas source_defs = SOURCE_RELAYER_def SOURCE_BLOCKENGINE_def SOURCE_CONTROL_def

definition mirror_new :: "socket_addr \<Rightarrow> socket_addr \<Rightarrow> bytes \<Rightarrow> 'c mirror" where
  "mirror_new proxy_server inertia_server cert_pin =
     \<lparr>mi_proxy_server = proxy_server, mi_inertia_server = inertia_server, mi_cert_pin = cert_pin,
      mi_conn = None, mi_filter_set = filter_set_default, mi_stats = stats_default\<rparr>"

definition mirror_example :: "'c mirror" where
  "mirror_example = mirror_new (V4 127 0 0 1, 0) (V4 10 0 0 1, 8080) (replicate 32 7)"

lemma mirror_example_simps [simp]:
  "mi_conn mirror_example = None" "mi_filter_set mirror_example = filter_set_default"
  "mi_stats mirror_example = stats_default" "mi_cert_pin mirror_example = replicate 32 7"
  by (simp_all add: mirror_example_def mirror_new_def)

section \<open>Sending\<close>

text \<open>Nanoseconds since the epoch, zero before it, cut to 64 bits.\<close>

definition now_nanos :: "int \<Rightarrow> u64" where
  "now_nanos t = (if t < 0 then 0 else of_int t)"

definition mirror_frame :: "u8 \<Rightarrow> u64 \<Rightarrow> bytes \<Rightarrow> bytes" where
  "mirror_frame source nanos data = source # u64_to_le_bytes nanos @ data"

definition count_datagram :: "u8 \<Rightarrow> dgram_result \<Rightarrow> mirror_stats \<Rightarrow> mirror_stats" where
  "count_datagram source r st =
     (case r of
        DgOk \<Rightarrow>
          if source = SOURCE_RELAYER then st\<lparr>tpu_packets_sent := tpu_packets_sent st + 1\<rparr>
          else if source = SOURCE_CONTROL then st\<lparr>control_sent := control_sent st + 1\<rparr>
          else st\<lparr>be_packets_sent := be_packets_sent st + 1\<rparr>
      | DgTooLarge \<Rightarrow> st\<lparr>dropped_oversized := dropped_oversized st + 1\<rparr>
      | DgOther \<Rightarrow> st\<lparr>dropped_other := dropped_other st + 1\<rparr>)"

definition mirror_send ::
  "('c, 'w) net \<Rightarrow> u8 \<Rightarrow> bytes \<Rightarrow> 'c mirror \<times> 'w \<Rightarrow> 'c mirror \<times> 'w" where
  "mirror_send net source data mw =
     (case mw of (m, w) \<Rightarrow>
       (case mi_conn m of
          None \<Rightarrow> (m, w)
        | Some conn \<Rightarrow>
            (case nt_system_time net w of (t, w1) \<Rightarrow>
              (case nt_send_datagram net conn (mirror_frame source (now_nanos t) data) w1 of (r, w2) \<Rightarrow>
                (m\<lparr>mi_stats := count_datagram source r (mi_stats m)\<rparr>, w2)))))"

definition mirror_set :: "'c option \<Rightarrow> 'c mirror \<Rightarrow> 'c mirror" where
  "mirror_set conn m = m\<lparr>mi_conn := conn\<rparr>"

definition mirror_packet :: "'b pdata \<Rightarrow> ('c, 'w) net \<Rightarrow> 'b packet \<Rightarrow> 'c mirror \<times> 'w \<Rightarrow> 'c mirror \<times> 'w" where
  "mirror_packet pdata net p mw =
     (if discard p then mw
      else case pdata p of None \<Rightarrow> mw | Some data \<Rightarrow> mirror_send net SOURCE_RELAYER data mw)"

definition mirror_banking_batch ::
  "'b pdata \<Rightarrow> ('c, 'w) net \<Rightarrow> 'b banking_batch \<Rightarrow> 'c mirror \<times> 'w \<Rightarrow> 'c mirror \<times> 'w" where
  "mirror_banking_batch pdata net batch mw =
     fold (\<lambda>packet_batch. fold (mirror_packet pdata net) packet_batch) batch mw"

definition mirror_be_packets ::
  "('c, 'w) net \<Rightarrow> be_packets_response \<Rightarrow> 'c mirror \<times> 'w \<Rightarrow> 'c mirror \<times> 'w" where
  "mirror_be_packets net resp mw =
     (case bp_batch resp of None \<Rightarrow> mw
      | Some batch \<Rightarrow>
          fold (\<lambda>p. mirror_send net SOURCE_BLOCKENGINE (pp_data p)) (pb_packets batch) mw)"

section \<open>Taking in filters\<close>

definition ingest_filter :: "instant \<Rightarrow> bytes \<Rightarrow> 'c mirror \<Rightarrow> 'c mirror" where
  "ingest_filter now bs m =
     (case bs of [] \<Rightarrow> m
      | tag # sig \<Rightarrow>
          if tag \<noteq> FILTER_TAG then m
          else case array_try_from 64 sig of None \<Rightarrow> m
            | Some sig \<Rightarrow> m\<lparr>mi_filter_set := fs_insert now sig (mi_filter_set m),
                mi_stats := (mi_stats m)\<lparr>filters_received := filters_received (mi_stats m) + 1\<rparr>\<rparr>)"

text \<open>
  One poll of the biased select of \<open>read_filters\<close>: shutdown first, then a datagram (with the instant
  at which it is ingested) or the end of the connection. The loop runs over the polls it sees.
\<close>

datatype filter_poll = FpShutdown | FpDatagram instant bytes | FpError

fun read_filters :: "filter_poll list \<Rightarrow> 'c mirror \<Rightarrow> 'c mirror" where
  "read_filters [] m = m"
| "read_filters (FpShutdown # polls) m = m"
| "read_filters (FpDatagram now bs # polls) m = read_filters polls (ingest_filter now bs m)"
| "read_filters (FpError # polls) m = m"

section \<open>The control task\<close>

text \<open>
  At each tick the task reports the connected validator, if there is exactly one; \<open>identity\<close> is the
  value of \<open>ConnectedValidator::get\<close> at that tick. \<open>prev\<close> only decides whether a line is logged; the
  logged identities are the third component of the result.
\<close>

datatype control_poll = CpShutdown | CpTick "bytes option"

fun mirror_control ::
  "('c, 'w) net \<Rightarrow> control_poll list \<Rightarrow> bytes option \<Rightarrow> 'c mirror \<times> 'w \<Rightarrow> ('c mirror \<times> 'w) \<times> bytes list"
where
  "mirror_control net [] prev mw = (mw, [])"
| "mirror_control net (CpShutdown # polls) prev mw = (mw, [])"
| "mirror_control net (CpTick None # polls) prev mw = mirror_control net polls prev mw"
| "mirror_control net (CpTick (Some identity) # polls) prev mw =
     (case mirror_control net polls (Some identity) (mirror_send net SOURCE_CONTROL identity mw) of
        (mw', logged) \<Rightarrow> (mw', if prev \<noteq> Some identity then identity # logged else logged))"

section \<open>Waiting for shutdown\<close>

text \<open>The watch channel delivers values until its sender is dropped. \<open>True\<close>: the wait has returned.\<close>

datatype watch_event = Changed bool | SenderDropped

fun wait_for_shutdown :: "bool \<Rightarrow> watch_event list \<Rightarrow> bool" where
  "wait_for_shutdown True evs = True"
| "wait_for_shutdown False [] = False"
| "wait_for_shutdown False (SenderDropped # evs) = True"
| "wait_for_shutdown False (Changed v # evs) = wait_for_shutdown v evs"

section \<open>The report\<close>

datatype counter =
  TpuPackets | BePackets | ControlSent | BundlesSent | BundlesReceived | Filters | Oversized | OtherDropped

fun counter_get :: "counter \<Rightarrow> mirror_stats \<Rightarrow> u64" where
  "counter_get TpuPackets st = tpu_packets_sent st"
| "counter_get BePackets st = be_packets_sent st"
| "counter_get ControlSent st = control_sent st"
| "counter_get BundlesSent st = bundles_sent st"
| "counter_get BundlesReceived st = bundles_received st"
| "counter_get Filters st = filters_received st"
| "counter_get Oversized st = dropped_oversized st"
| "counter_get OtherDropped st = dropped_other st"

fun counter_set :: "counter \<Rightarrow> u64 \<Rightarrow> mirror_stats \<Rightarrow> mirror_stats" where
  "counter_set TpuPackets v st = st\<lparr>tpu_packets_sent := v\<rparr>"
| "counter_set BePackets v st = st\<lparr>be_packets_sent := v\<rparr>"
| "counter_set ControlSent v st = st\<lparr>control_sent := v\<rparr>"
| "counter_set BundlesSent v st = st\<lparr>bundles_sent := v\<rparr>"
| "counter_set BundlesReceived v st = st\<lparr>bundles_received := v\<rparr>"
| "counter_set Filters v st = st\<lparr>filters_received := v\<rparr>"
| "counter_set Oversized v st = st\<lparr>dropped_oversized := v\<rparr>"
| "counter_set OtherDropped v st = st\<lparr>dropped_other := v\<rparr>"

record stats_report =
  rp_stats :: mirror_stats
  rp_info :: bool
  rp_warn :: bool

text \<open>
  A tick swaps the counters out one after the other, in the order of the code; \<open>env c\<close> is what the other
  tasks count between the previous swap and that of \<open>c\<close>. The first component collects the values.
\<close>

fun swap_all :: "(counter \<Rightarrow> mirror_stats \<Rightarrow> mirror_stats) \<Rightarrow> counter list \<Rightarrow> mirror_stats \<times> mirror_stats \<Rightarrow>
    mirror_stats \<times> mirror_stats" where
  "swap_all env [] (seen, st) = (seen, st)"
| "swap_all env (c # cs) (seen, st) =
     (let st' = env c st in swap_all env cs (counter_set c (counter_get c st') seen, counter_set c 0 st'))"

definition report_order :: "counter list" where
  "report_order = [TpuPackets, BePackets, ControlSent, BundlesSent, BundlesReceived, Filters, Oversized, OtherDropped]"

definition report_tick :: "(counter \<Rightarrow> mirror_stats \<Rightarrow> mirror_stats) \<Rightarrow> mirror_stats \<Rightarrow> stats_report \<times> mirror_stats" where
  "report_tick env st =
     (case swap_all env report_order (stats_default, st) of (seen, st') \<Rightarrow>
       (\<lparr>rp_stats = seen,
         rp_info = (tpu_packets_sent seen > 0 \<or> be_packets_sent seen > 0 \<or> bundles_sent seen > 0 \<or>
           bundles_received seen > 0 \<or> filters_received seen > 0),
         rp_warn = (dropped_oversized seen > 0 \<or> dropped_other seen > 0)\<rparr>, st'))"

section \<open>Frames\<close>

text \<open>The reading of a frame that its layout determines.\<close>

definition split_frame :: "bytes \<Rightarrow> (u8 \<times> u64 \<times> bytes) option" where
  "split_frame bs =
     (case bs of [] \<Rightarrow> None
      | source # rest \<Rightarrow>
          if length rest < 8 then None
          else Some (source, u64_from_le_bytes (take 8 rest), drop 8 rest))"

text \<open>
  A mirrored datagram determines its source, its timestamp and its payload, and is exactly nine
  bytes longer than the payload.
\<close>

theorem split_mirror_frame:
  "split_frame (mirror_frame source nanos data) = Some (source, nanos, data) \<and>
   length (mirror_frame source nanos data) = 9 + length data"
  by (simp add: split_frame_def mirror_frame_def)

section \<open>One datagram per live packet\<close>

text \<open>What the network sees when the payloads are sent one after the other on \<open>conn\<close>.\<close>

fun send_all :: "('c, 'w) net \<Rightarrow> 'c \<Rightarrow> u8 \<Rightarrow> bytes list \<Rightarrow> 'w \<Rightarrow> dgram_result list \<times> 'w" where
  "send_all net conn source [] w = ([], w)"
| "send_all net conn source (d # ds) w =
     (case nt_system_time net w of (t, w1) \<Rightarrow>
      case nt_send_datagram net conn (mirror_frame source (now_nanos t) d) w1 of (r, w2) \<Rightarrow>
      case send_all net conn source ds w2 of (rs, w3) \<Rightarrow> (r # rs, w3))"

lemma length_send_all: "length (fst (send_all net conn source ds w)) = length ds"
  by (induction ds arbitrary: w) (simp_all split: prod.splits, metis fst_conv)

lemma mirror_send_disconnected [simp]:
  "mi_conn m = None \<Longrightarrow> mirror_send net source d (m, w) = (m, w)"
  by (simp add: mirror_send_def)

lemma fold_mirror_send_disconnected:
  "mi_conn m = None \<Longrightarrow> fold (mirror_send net source) ds (m, w) = (m, w)"
  by (induction ds) simp_all

lemma fold_mirror_send:
  "mi_conn m = Some conn \<Longrightarrow>
   fold (mirror_send net source) ds (m, w) =
     (m\<lparr>mi_stats := fold (count_datagram source) (fst (send_all net conn source ds w)) (mi_stats m)\<rparr>,
      snd (send_all net conn source ds w))"
proof (induction ds arbitrary: m w)
  case Nil
  then show ?case by simp
next
  case (Cons d ds)
  obtain t w1 where t: "nt_system_time net w = (t, w1)" by force
  obtain r w2 where r: "nt_send_datagram net conn (mirror_frame source (now_nanos t) d) w1 = (r, w2)"
    by force
  have "mirror_send net source d (m, w) = (m\<lparr>mi_stats := count_datagram source r (mi_stats m)\<rparr>, w2)"
    using Cons.prems t r by (simp add: mirror_send_def)
  then show ?case
    using Cons.IH [of "m\<lparr>mi_stats := count_datagram source r (mi_stats m)\<rparr>" w2] Cons.prems t r
    by (simp split: prod.splits)
qed

definition live_data :: "'b pdata \<Rightarrow> 'b banking_batch \<Rightarrow> bytes list" where
  "live_data pdata batch = List.map_filter pdata (batch_units batch)"

lemma fold_mirror_packet:
  "fold (mirror_packet pdata net) ps mw =
   fold (mirror_send net SOURCE_RELAYER) (List.map_filter pdata (filter (\<lambda>p. \<not> discard p) ps)) mw"
  by (induction ps arbitrary: mw) (simp_all add: mirror_packet_def map_filter_simps split: option.splits)

lemma mirror_banking_batch_eq:
  "mirror_banking_batch pdata net batch mw =
   fold (mirror_send net SOURCE_RELAYER) (live_data pdata batch) mw"
proof -
  have "fold (\<lambda>packet_batch. fold (mirror_packet pdata net) packet_batch) batch mw =
      fold (mirror_packet pdata net) (concat batch) mw"
    by (induction batch arbitrary: mw) simp_all
  then show ?thesis
    by (simp add: mirror_banking_batch_def fold_mirror_packet live_data_def batch_units_def)
qed

lemma mirror_be_packets_eq:
  "mirror_be_packets net resp mw =
   fold (mirror_send net SOURCE_BLOCKENGINE) (map pp_data (be_packet_units resp)) mw"
  by (simp add: mirror_be_packets_def be_packet_units_def fold_map comp_def split: option.splits)

text \<open>How many of the results were sent, too large, or failed otherwise.\<close>

definition n_results :: "dgram_result \<Rightarrow> dgram_result list \<Rightarrow> u64" where
  "n_results r rs = of_nat (count_list rs r)"

lemma fold_count_relayer:
  "fold (count_datagram SOURCE_RELAYER) rs st =
   st\<lparr>tpu_packets_sent := tpu_packets_sent st + n_results DgOk rs,
      dropped_oversized := dropped_oversized st + n_results DgTooLarge rs,
      dropped_other := dropped_other st + n_results DgOther rs\<rparr>"
proof (induction rs arbitrary: st)
  case Nil
  then show ?case by (simp add: n_results_def)
next
  case (Cons r rs)
  then show ?case
    by (cases r) (simp_all add: count_datagram_def n_results_def add.assoc)
qed

text \<open>
  While a connection is up, mirroring a TPU batch sends one datagram for each packet that is not
  marked discard and has data, in the order of the batch, and accounts for each in exactly one
  counter: sent, too large, or failed otherwise; nothing else of the mirror changes. While no
  connection is up nothing is sent and nothing is counted.
\<close>

theorem mirror_banking_batch_accounts:
  "mirror_banking_batch pdata net batch (m, w) =
     (case mi_conn m of
        None \<Rightarrow> (m, w)
      | Some conn \<Rightarrow>
          (case send_all net conn SOURCE_RELAYER (live_data pdata batch) w of (rs, w') \<Rightarrow>
            (m\<lparr>mi_stats := (mi_stats m)\<lparr>
                tpu_packets_sent := tpu_packets_sent (mi_stats m) + n_results DgOk rs,
                dropped_oversized := dropped_oversized (mi_stats m) + n_results DgTooLarge rs,
                dropped_other := dropped_other (mi_stats m) + n_results DgOther rs\<rparr>\<rparr>, w'))) \<and>
   (\<forall>conn. length (fst (send_all net conn SOURCE_RELAYER (live_data pdata batch) w)) =
      length (live_data pdata batch))"
  by (simp add: mirror_banking_batch_eq fold_mirror_send fold_mirror_send_disconnected
      fold_count_relayer length_send_all split: option.splits prod.splits)

section \<open>The report loses no event\<close>

text \<open>
  The counters as an eight-fold sum: \<open>stats_plus\<close> adds them field by field. An event is a datagram
  result, a filter taken in, or bundles sent or received.
\<close>

definition stats_plus :: "mirror_stats \<Rightarrow> mirror_stats \<Rightarrow> mirror_stats" where
  "stats_plus a b = \<lparr>tpu_packets_sent = tpu_packets_sent a + tpu_packets_sent b,
     be_packets_sent = be_packets_sent a + be_packets_sent b,
     control_sent = control_sent a + control_sent b,
     bundles_sent = bundles_sent a + bundles_sent b,
     bundles_received = bundles_received a + bundles_received b,
     filters_received = filters_received a + filters_received b,
     dropped_oversized = dropped_oversized a + dropped_oversized b,
     dropped_other = dropped_other a + dropped_other b\<rparr>"

datatype stat_event = EvDatagram u8 dgram_result | EvFilter | EvBundlesSent u64 | EvBundlesReceived u64

fun count_event :: "stat_event \<Rightarrow> mirror_stats \<Rightarrow> mirror_stats" where
  "count_event (EvDatagram source r) st = count_datagram source r st"
| "count_event EvFilter st = st\<lparr>filters_received := filters_received st + 1\<rparr>"
| "count_event (EvBundlesSent n) st = st\<lparr>bundles_sent := bundles_sent st + n\<rparr>"
| "count_event (EvBundlesReceived n) st = st\<lparr>bundles_received := bundles_received st + n\<rparr>"

text \<open>
  \<open>report_stats\<close> next to the tasks that count: an event between two polls of the select, a tick with the
  events that fall between its swaps, or a change of the shutdown channel, which ends the loop while the
  other tasks may still count. An \<open>abort\<close> takes effect between two polls, since a tick does not wait. The
  result is the reports and what the counters hold in the end.
\<close>

datatype stat_step = Count stat_event | Tick "counter \<Rightarrow> stat_event list" | ShutdownChanged

fun step_events :: "stat_step \<Rightarrow> stat_event list" where
  "step_events (Count ev) = [ev]"
| "step_events (Tick between) = concat (map between report_order)"
| "step_events ShutdownChanged = []"

fun report_stats :: "stat_step list \<Rightarrow> mirror_stats \<Rightarrow> stats_report list \<times> mirror_stats" where
  "report_stats [] st = ([], st)"
| "report_stats (Tick between # steps) st =
     (case report_tick (\<lambda>c. fold count_event (between c)) st of (rep, st') \<Rightarrow>
      case report_stats steps st' of (reps, st'') \<Rightarrow> (rep # reps, st''))"
| "report_stats (Count ev # steps) st = report_stats steps (count_event ev st)"
| "report_stats (ShutdownChanged # steps) st = ([], fold count_event (concat (map step_events steps)) st)"

lemma stats_plus_default [simp]: "stats_plus st stats_default = st" "stats_plus stats_default st = st"
  by (simp_all add: stats_plus_def stats_default_def)

lemma stats_plus_assoc: "stats_plus (stats_plus a b) c = stats_plus a (stats_plus b c)"
  by (simp add: stats_plus_def add.assoc)

lemma count_event_plus: "count_event ev (stats_plus a b) = stats_plus a (count_event ev b)"
proof (cases ev)
  case (EvDatagram source r)
  then show ?thesis by (cases r) (simp_all add: count_datagram_def stats_plus_def add.assoc)
qed (simp_all add: stats_plus_def add.assoc)

lemma fold_count_event_plus: "fold count_event evs (stats_plus a b) = stats_plus a (fold count_event evs b)"
  by (induction evs arbitrary: b) (simp_all add: count_event_plus)

lemma swap_counter_plus:
  "counter_get c seen = 0 \<Longrightarrow>
   stats_plus (counter_set c (counter_get c st) seen) (counter_set c 0 st) = stats_plus seen st"
  by (cases c) (simp_all add: stats_plus_def)

lemma counter_get_set: "counter_get c (counter_set c' v st) = (if c = c' then v else counter_get c st)"
  by (cases c; cases c') simp_all

lemma swap_all_conserves:
  assumes "distinct cs" and "\<forall>c \<in> set cs. counter_get c seen = 0"
    and "swap_all (\<lambda>c. fold count_event (between c)) cs (seen, st) = (seen', st')"
  shows "stats_plus seen' st' = fold count_event (concat (map between cs)) (stats_plus seen st)"
  using assms
proof (induction cs arbitrary: seen st)
  case (Cons c cs)
  let ?st = "fold count_event (between c) st"
  have "stats_plus seen' st' = fold count_event (concat (map between cs))
      (stats_plus (counter_set c (counter_get c ?st) seen) (counter_set c 0 ?st))"
    using Cons.prems by (intro Cons.IH) (auto simp: counter_get_set Let_def)
  then show ?case using Cons.prems(2) by (simp add: swap_counter_plus fold_count_event_plus)
qed simp

lemma report_tick_conserves:
  assumes "report_tick (\<lambda>c. fold count_event (between c)) st = (rep, st')"
  shows "stats_plus (rp_stats rep) st' = fold count_event (step_events (Tick between)) st"
proof -
  have "counter_get c stats_default = 0" for c by (cases c) (simp_all add: stats_default_def)
  moreover have "swap_all (\<lambda>c. fold count_event (between c)) report_order (stats_default, st) = (rp_stats rep, st')"
    using assms by (auto simp: report_tick_def split: prod.splits)
  moreover have "distinct report_order" by (simp add: report_order_def)
  ultimately show ?thesis using swap_all_conserves [of report_order stats_default] by simp
qed

definition reported_total :: "stats_report list \<Rightarrow> mirror_stats" where
  "reported_total reps = foldr (\<lambda>rep acc. stats_plus (rp_stats rep) acc) reps stats_default"

lemma report_stats_conserves:
  "report_stats steps st = (reps, st') \<Longrightarrow>
   stats_plus (reported_total reps) st' = fold count_event (concat (map step_events steps)) st"
proof (induction steps st arbitrary: reps st' rule: report_stats.induct)
  case (2 between steps st)
  obtain rep st1 where tick: "report_tick (\<lambda>c. fold count_event (between c)) st = (rep, st1)" by force
  obtain reps' where rest: "report_stats steps st1 = (reps', st')" and reps: "reps = rep # reps'"
    using "2.prems" tick by (auto split: prod.splits)
  have "stats_plus (reported_total reps) st' = stats_plus (rp_stats rep) (stats_plus (reported_total reps') st')"
    by (simp add: reps reported_total_def stats_plus_assoc)
  also have "\<dots> = stats_plus (rp_stats rep) (fold count_event (concat (map step_events steps)) st1)"
    using "2.IH" [OF tick [symmetric] rest] by simp
  also have "\<dots> = fold count_event (concat (map step_events steps)) (stats_plus (rp_stats rep) st1)"
    by (simp add: fold_count_event_plus)
  finally show ?case using report_tick_conserves [OF tick] by simp
qed (simp_all add: reported_total_def)


section \<open>Filters\<close>

fun poll_insert :: "filter_poll \<Rightarrow> fs_op list" where
  "poll_insert (FpDatagram now bs) =
     (if length bs = 65 \<and> hd bs = FILTER_TAG then [Insert now (tl bs)] else [])"
| "poll_insert _ = []"

fun is_datagram :: "filter_poll \<Rightarrow> bool" where
  "is_datagram (FpDatagram now bs) = True"
| "is_datagram _ = False"

lemma ingest_filter_eq:
  "ingest_filter now bs m =
   (case poll_insert (FpDatagram now bs) of [] \<Rightarrow> m
    | op # _ \<Rightarrow> m\<lparr>mi_filter_set := fs_step op (mi_filter_set m),
        mi_stats := (mi_stats m)\<lparr>filters_received := filters_received (mi_stats m) + 1\<rparr>\<rparr>)"
  by (cases bs) (auto simp: ingest_filter_def array_try_from_def)

text \<open>
  Reading filters until shutdown or the end of the connection amounts to inserting, in order and
  with the instants of their arrival, the signatures of exactly those datagrams that consist of the
  filter tag and 64 bytes, and counting them; any other datagram has no effect.
\<close>

theorem read_filters_inserts:
  "let ops = concat (map poll_insert (takeWhile is_datagram polls))
   in read_filters polls m =
      m\<lparr>mi_filter_set := fs_run ops (mi_filter_set m),
         mi_stats := (mi_stats m)\<lparr>filters_received := filters_received (mi_stats m) + of_nat (length ops)\<rparr>\<rparr>"
proof (induction polls m rule: read_filters.induct)
  case (3 now bs polls m)
  then show ?case by (simp add: ingest_filter_eq Let_def fs_run_def add.assoc)
qed (simp_all add: fs_run_def)

section \<open>Shutdown and control\<close>

lemma wait_for_shutdown_iff:
  "wait_for_shutdown v evs \<longleftrightarrow> v \<or> (\<exists>ev \<in> set evs. ev = Changed True \<or> ev = SenderDropped)"
proof (induction v evs rule: wait_for_shutdown.induct)
  case (4 v evs)
  then show ?case by (cases v) auto
qed auto

text \<open>The identities reported until shutdown.\<close>

fun reported :: "control_poll list \<Rightarrow> bytes list" where
  "reported [] = []"
| "reported (CpShutdown # polls) = []"
| "reported (CpTick None # polls) = reported polls"
| "reported (CpTick (Some identity) # polls) = identity # reported polls"

lemma mirror_control_sends:
  "fst (mirror_control net polls prev mw) = fold (mirror_send net SOURCE_CONTROL) (reported polls) mw"
  by (induction net polls prev mw rule: mirror_control.induct) (simp_all add: case_prod_beta)

lemma mirror_control_logs:
  "snd (mirror_control net polls prev mw) =
   (case prev of None \<Rightarrow> remdups_adj (reported polls)
    | Some p \<Rightarrow> tl (remdups_adj (p # reported polls)))"
proof (induction net polls prev mw rule: mirror_control.induct)
  case (4 net identity polls prev mw)
  then show ?case
    by (auto split: prod.splits option.splits simp: remdups_adj_Cons split: list.splits)
qed (auto split: option.splits)

end
