(* ===== verification/Delay.thy ===== *)
theory Delay
  imports Mirror
begin

text \<open>
  The two delay lines of \<open>src/proxy/mod.rs\<close>: the thread of \<open>spawn_relayer_delay\<close> for the TPU and the
  task \<open>delay_forward\<close> for the two block engine streams. Both hold every item back for a fixed delay
  in a queue and pass it through a filter when they release it. The locale \<open>delay_line\<close> is the
  contract the two share: their steps are made of the primitive moves of a delayed queue.

  The state of a loop is its queue and, as a record of what it did, what it received (with the
  instant that was read when the item was queued) and what it sent (with the instant read for the
  release, the release instant of the item, the state of the shared data at that moment, the item and
  the value sent). The shared data, of type \<open>'s\<close>, are also written by other tasks: the inputs of a
  step hold an interference function for every point where the loop touches them.
\<close>

type_synonym 'a delay_queue = "(instant \<times> 'a) list"

record ('a, 's) sent_item =
  si_now :: instant
  si_at :: instant
  si_shared :: 's
  si_item :: 'a
  si_out :: 'a

record ('a, 's) delay_st =
  dl_queue :: "'a delay_queue"
  dl_recvd :: "(instant \<times> 'a) list"
  dl_sent :: "('a, 's) sent_item list"
  dl_shared :: 's
  dl_done :: bool

definition delay_init :: "'s \<Rightarrow> ('a, 's) delay_st" where
  "delay_init s = \<lparr>dl_queue = [], dl_recvd = [], dl_sent = [], dl_shared = s, dl_done = False\<rparr>"

definition dl_push :: "duration \<Rightarrow> instant \<Rightarrow> 'a \<Rightarrow> ('a, 's) delay_st \<Rightarrow> ('a, 's) delay_st" where
  "dl_push delay now x st =
     st\<lparr>dl_queue := dl_queue st @ [(now + delay, x)], dl_recvd := dl_recvd st @ [(now, x)]\<rparr>"

definition dl_pop :: "('s \<Rightarrow> 'a \<Rightarrow> 'a) \<Rightarrow> instant \<Rightarrow> ('a, 's) delay_st \<Rightarrow> ('a, 's) delay_st" where
  "dl_pop filt now st =
     (case dl_queue st of [] \<Rightarrow> st
      | (at, x) # q \<Rightarrow> st\<lparr>dl_queue := q, dl_sent := dl_sent st @
          [\<lparr>si_now = now, si_at = at, si_shared = dl_shared st, si_item = x, si_out = filt (dl_shared st) x\<rparr>]\<rparr>)"

definition dl_interfere :: "('s \<Rightarrow> 's) \<Rightarrow> ('a, 's) delay_st \<Rightarrow> ('a, 's) delay_st" where
  "dl_interfere f st = st\<lparr>dl_shared := f (dl_shared st)\<rparr>"

definition front_due :: "instant \<Rightarrow> 'a delay_queue \<Rightarrow> bool" where
  "front_due now q \<longleftrightarrow> (case q of [] \<Rightarrow> False | (at, x) # q \<Rightarrow> at \<le> now)"

section \<open>The relayer's delay thread\<close>

definition IDLE_TICK :: duration where "IDLE_TICK = from_millis 100"
definition PACKET_DELAY :: duration where "PACKET_DELAY = from_millis 100"

datatype 'a recv_timeout = RtOk 'a | RtTimeout | RtDisconnected

text \<open>
  What one pass through the loop sees: the exit flag, the instant for the timeout, the result of
  \<open>recv_timeout\<close>, the instant at which a batch is queued, the clock readings of the sweep, the instant
  of the release, whether the \<open>i\<close>-th send of the pass succeeds, and the interference of the other tasks
  before the mirroring, before the sweep and before the \<open>i\<close>-th release.
\<close>

record ('a, 's) relayer_in =
  ri_exit :: bool
  ri_t0 :: instant
  ri_recv :: "'a recv_timeout"
  ri_t1 :: instant
  ri_clk :: "signature \<Rightarrow> instant"
  ri_t2 :: instant
  ri_send_ok :: "nat \<Rightarrow> bool"
  ri_before_mirror :: "'s \<Rightarrow> 's"
  ri_before_sweep :: "'s \<Rightarrow> 's"
  ri_before_release :: "nat \<Rightarrow> 's \<Rightarrow> 's"

definition relayer_timeout :: "instant \<Rightarrow> 'a delay_queue \<Rightarrow> duration" where
  "relayer_timeout t0 q =
     (case q of (release_at, _) # _ \<Rightarrow> saturating_duration_since release_at t0 | [] \<Rightarrow> IDLE_TICK)"

text \<open>The inner loop: pop, filter and send while the front is due; a failed send ends the thread.\<close>

function relayer_release :: "('s \<Rightarrow> 'a \<Rightarrow> 'a) \<Rightarrow> ('a, 's) relayer_in \<Rightarrow> nat \<Rightarrow>
    ('a, 's) delay_st \<Rightarrow> ('a, 's) delay_st" where
  "relayer_release filt inp i st =
     (if front_due (ri_t2 inp) (dl_queue st)
      then let st' = dl_pop filt (ri_t2 inp) (dl_interfere (ri_before_release inp i) st)
           in if ri_send_ok inp i then relayer_release filt inp (Suc i) st' else st'\<lparr>dl_done := True\<rparr>
      else st)"
  by pat_completeness auto
termination
  by (relation "measure (\<lambda>(filt, inp, i, st). length (dl_queue st))")
    (auto simp: front_due_def dl_pop_def dl_interfere_def split: list.splits)

declare relayer_release.simps [simp del]

definition sweep_shared :: "(signature \<Rightarrow> instant) \<Rightarrow> 'c mirror \<times> 'w \<Rightarrow> 'c mirror \<times> 'w" where
  "sweep_shared clk mw = (case mw of (m, w) \<Rightarrow> (m\<lparr>mi_filter_set := fs_sweep clk (mi_filter_set m)\<rparr>, w))"

definition discard_shared :: "'b pdata \<Rightarrow> 'c mirror \<times> 'w \<Rightarrow> 'b banking_batch \<Rightarrow> 'b banking_batch" where
  "discard_shared pdata mw batch = discard_filtered pdata (mi_filter_set (fst mw)) batch"

definition relayer_delay_step :: "'b pdata \<Rightarrow> ('c, 'w) net \<Rightarrow> duration \<Rightarrow>
    ('b banking_batch, 'c mirror \<times> 'w) relayer_in \<Rightarrow>
    ('b banking_batch, 'c mirror \<times> 'w) delay_st \<Rightarrow> ('b banking_batch, 'c mirror \<times> 'w) delay_st" where
  "relayer_delay_step pdata net delay inp st =
     (if dl_done st \<or> ri_exit inp then st\<lparr>dl_done := True\<rparr>
      else case ri_recv inp of
          RtDisconnected \<Rightarrow> st\<lparr>dl_done := True\<rparr>
        | RtTimeout \<Rightarrow>
            relayer_release (discard_shared pdata) inp 0
              (dl_interfere (sweep_shared (ri_clk inp)) (dl_interfere (ri_before_sweep inp) st))
        | RtOk batch \<Rightarrow>
            relayer_release (discard_shared pdata) inp 0
              (dl_interfere (sweep_shared (ri_clk inp)) (dl_interfere (ri_before_sweep inp)
                (dl_push delay (ri_t1 inp) batch
                  (dl_interfere (mirror_banking_batch pdata net batch)
                    (dl_interfere (ri_before_mirror inp) st))))))"

definition relayer_delay_run where
  "relayer_delay_run pdata net delay inps st = fold (relayer_delay_step pdata net delay) inps st"

section \<open>delay_forward\<close>

datatype 'a bcast = BcOk 'a | BcLagged nat | BcClosed

text \<open>
  One poll of the biased select: whether shutdown was signalled, whether the timer of the front item
  has fired, the instant of the release, what the channel has (\<open>None\<close>: nothing yet), the instant at
  which an item is queued, and the interference before the receive hook and the \<open>i\<close>-th release hook.
\<close>

record ('a, 's) forward_in =
  fi_shutdown :: bool
  fi_timer :: bool
  fi_now :: instant
  fi_recv :: "'a bcast option"
  fi_t :: instant
  fi_before_receive :: "'s \<Rightarrow> 's"
  fi_before_release :: "nat \<Rightarrow> 's \<Rightarrow> 's"

function forward_release :: "('s \<Rightarrow> 'a \<Rightarrow> 'a) \<Rightarrow> ('a, 's) forward_in \<Rightarrow> nat \<Rightarrow>
    ('a, 's) delay_st \<Rightarrow> ('a, 's) delay_st" where
  "forward_release on_release inp i st =
     (if front_due (fi_now inp) (dl_queue st)
      then forward_release on_release inp (Suc i)
        (dl_pop on_release (fi_now inp) (dl_interfere (fi_before_release inp i) st))
      else st)"
  by pat_completeness auto
termination
  by (relation "measure (\<lambda>(f, inp, i, st). length (dl_queue st))")
    (auto simp: front_due_def dl_pop_def dl_interfere_def split: list.splits)

declare forward_release.simps [simp del]

definition delay_forward_step :: "duration \<Rightarrow> ('a \<Rightarrow> 's \<Rightarrow> 's) \<Rightarrow> ('s \<Rightarrow> 'a \<Rightarrow> 'a) \<Rightarrow>
    ('a, 's) forward_in \<Rightarrow> ('a, 's) delay_st \<Rightarrow> ('a, 's) delay_st" where
  "delay_forward_step delay on_receive on_release inp st =
     (if dl_done st \<or> fi_shutdown inp then st\<lparr>dl_done := True\<rparr>
      else if dl_queue st \<noteq> [] \<and> fi_timer inp then forward_release on_release inp 0 st
      else case fi_recv inp of
          None \<Rightarrow> st
        | Some (BcOk x) \<Rightarrow>
            dl_push delay (fi_t inp) x
              (dl_interfere (on_receive x) (dl_interfere (fi_before_receive inp) st))
        | Some (BcLagged n) \<Rightarrow> st
        | Some BcClosed \<Rightarrow> st\<lparr>dl_done := True\<rparr>)"

definition delay_forward where
  "delay_forward delay on_receive on_release inps st =
     fold (delay_forward_step delay on_receive on_release) inps st"

text \<open>The two instances that \<open>Proxy::new\<close> spawns.\<close>

definition forward_packets_step where
  "forward_packets_step net = delay_forward_step PACKET_DELAY (mirror_be_packets net)
     (\<lambda>mw. filter_be_packets (mi_filter_set (fst mw)))"

definition forward_bundles_step where
  "forward_bundles_step = delay_forward_step PACKET_DELAY (\<lambda>_ mw. mw)
     (\<lambda>mw. filter_be_bundles (mi_filter_set (fst mw)))"

section \<open>The contract of a delay line\<close>

inductive dl_move :: "duration \<Rightarrow> ('s \<Rightarrow> 'a \<Rightarrow> 'a) \<Rightarrow> ('a, 's) delay_st \<Rightarrow> ('a, 's) delay_st \<Rightarrow> bool"
  for delay filt where
  push: "dl_move delay filt st (dl_push delay now x st)"
| pop: "front_due now (dl_queue st) \<Longrightarrow> dl_move delay filt st (dl_pop filt now st)"
| interfere: "dl_move delay filt st (dl_interfere f st)"
| stop: "dl_move delay filt st (st\<lparr>dl_done := True\<rparr>)"

abbreviation dl_moves where
  "dl_moves delay filt \<equiv> (dl_move delay filt)\<^sup>*\<^sup>*"

text \<open>
  What was received is what was sent followed by what is queued, in order and with the release
  instants the delay gives; nothing was sent before its release instant; and every value sent is the
  filtered item under the shared data of that moment.
\<close>

definition dl_inv :: "duration \<Rightarrow> ('s \<Rightarrow> 'a \<Rightarrow> 'a) \<Rightarrow> ('a, 's) delay_st \<Rightarrow> bool" where
  "dl_inv delay filt st \<longleftrightarrow>
     map (\<lambda>(t, x). (t + delay, x)) (dl_recvd st) =
       map (\<lambda>si. (si_at si, si_item si)) (dl_sent st) @ dl_queue st \<and>
     (\<forall>si \<in> set (dl_sent st). si_at si \<le> si_now si \<and> si_out si = filt (si_shared si) (si_item si))"

lemma dl_inv_init [simp]: "dl_inv delay filt (delay_init s)"
  by (simp add: dl_inv_def delay_init_def)

lemma dl_inv_move: "dl_move delay filt st st' \<Longrightarrow> dl_inv delay filt st \<Longrightarrow> dl_inv delay filt st'"
  by (induction rule: dl_move.induct)
    (auto simp: dl_inv_def dl_push_def dl_pop_def dl_interfere_def front_due_def split: list.splits)

lemma dl_inv_moves: "dl_moves delay filt st st' \<Longrightarrow> dl_inv delay filt st \<Longrightarrow> dl_inv delay filt st'"
  by (induction rule: rtranclp_induct) (auto intro: dl_inv_move)

locale delay_line =
  fixes step :: "'i \<Rightarrow> ('a, 's) delay_st \<Rightarrow> ('a, 's) delay_st"
    and delay :: duration
    and filt :: "'s \<Rightarrow> 'a \<Rightarrow> 'a"
  assumes step_moves: "dl_moves delay filt st (step inp st)"
begin

lemma run_inv: "dl_inv delay filt st \<Longrightarrow> dl_inv delay filt (fold step inps st)"
  by (induction inps arbitrary: st) (auto intro: dl_inv_moves step_moves)

lemma run_items:
  assumes "fold step inps (delay_init s) = st"
  shows "map snd (dl_recvd st) = map si_item (dl_sent st) @ map snd (dl_queue st)"
proof -
  have inv: "dl_inv delay filt st"
    using run_inv [of "delay_init s" inps] assms by simp
  then have "map snd (map (\<lambda>(t, x). (t + delay, x)) (dl_recvd st)) =
      map snd (map (\<lambda>si. (si_at si, si_item si)) (dl_sent st) @ dl_queue st)"
    by (simp add: dl_inv_def)
  then show ?thesis by (simp add: comp_def case_prod_beta)
qed

lemma run_delay:
  assumes "fold step inps (delay_init s) = st" and "i < length (dl_sent st)"
  shows "fst (dl_recvd st ! i) + delay \<le> si_now (dl_sent st ! i)"
    and "si_out (dl_sent st ! i) = filt (si_shared (dl_sent st ! i)) (snd (dl_recvd st ! i))"
proof -
  let ?sent = "map (\<lambda>si. (si_at si, si_item si)) (dl_sent st)"
  have inv: "dl_inv delay filt st"
    using run_inv [of "delay_init s" inps] assms(1) by simp
  then have eq: "map (\<lambda>(t, x). (t + delay, x)) (dl_recvd st) = ?sent @ dl_queue st"
    by (simp add: dl_inv_def)
  from arg_cong [OF this, of length] have len: "i < length (dl_recvd st)" using assms(2) by simp
  have "map (\<lambda>(t, x). (t + delay, x)) (dl_recvd st) ! i = ?sent ! i"
    using eq assms(2) by (simp add: nth_append)
  then have i: "si_at (dl_sent st ! i) = fst (dl_recvd st ! i) + delay"
    "si_item (dl_sent st ! i) = snd (dl_recvd st ! i)"
    using assms(2) len by (simp_all add: case_prod_beta)
  moreover have "dl_sent st ! i \<in> set (dl_sent st)" using assms(2) by simp
  ultimately show "fst (dl_recvd st ! i) + delay \<le> si_now (dl_sent st ! i)"
    and "si_out (dl_sent st ! i) = filt (si_shared (dl_sent st ! i)) (snd (dl_recvd st ! i))"
    using inv unfolding dl_inv_def by metis+
qed

end

section \<open>Both loops are delay lines\<close>

lemma moves_trans: "dl_moves d f a b \<Longrightarrow> dl_moves d f b c \<Longrightarrow> dl_moves d f a c"
  by (rule rtranclp_trans)

lemmas move_step = rtranclp.rtrancl_into_rtrancl
lemmas move_intros = dl_move.push dl_move.interfere dl_move.stop

lemma queue_interfere [simp]: "dl_queue (dl_interfere f st) = dl_queue st"
  by (simp add: dl_interfere_def)

lemma done_simps [simp]:
  "dl_done (dl_interfere f st) = dl_done st" "dl_done (dl_push delay now x st) = dl_done st"
  "dl_done (dl_pop filt now st) = dl_done st"
  by (simp_all add: dl_interfere_def dl_push_def dl_pop_def split: list.splits)

lemma pop_after_interfere:
  assumes "front_due now (dl_queue st)"
  shows "dl_moves delay filt st (dl_pop filt now (dl_interfere f st))"
proof -
  have "dl_move delay filt (dl_interfere f st) (dl_pop filt now (dl_interfere f st))"
    using assms by (intro dl_move.pop) simp
  moreover have "dl_move delay filt st (dl_interfere f st)" by (rule dl_move.interfere)
  ultimately show ?thesis by (blast intro: converse_rtranclp_into_rtranclp)
qed

lemma relayer_release_moves: "dl_moves delay filt st (relayer_release filt inp i st)"
proof (induction filt inp i st rule: relayer_release.induct)
  case (1 filt inp i st)
  show ?case
  proof (cases "front_due (ri_t2 inp) (dl_queue st)")
    case True
    let ?st' = "dl_pop filt (ri_t2 inp) (dl_interfere (ri_before_release inp i) st)"
    have "dl_moves delay filt st ?st'" using True by (rule pop_after_interfere)
    moreover have "dl_moves delay filt ?st' (relayer_release filt inp (Suc i) ?st')"
      if "ri_send_ok inp i"
      using "1.IH" True that by simp
    moreover have "dl_moves delay filt ?st' (?st'\<lparr>dl_done := True\<rparr>)"
      by (blast intro: dl_move.stop)
    ultimately show ?thesis
      using True by (subst relayer_release.simps) (auto simp: Let_def intro: moves_trans)
  next
    case False
    then show ?thesis by (subst relayer_release.simps) simp
  qed
qed

lemma forward_release_moves: "dl_moves delay filt st (forward_release filt inp i st)"
proof (induction filt inp i st rule: forward_release.induct)
  case (1 filt inp i st)
  show ?case
  proof (cases "front_due (fi_now inp) (dl_queue st)")
    case True
    have "dl_moves delay filt st (dl_pop filt (fi_now inp) (dl_interfere (fi_before_release inp i) st))"
      using True by (rule pop_after_interfere)
    then show ?thesis
      using True "1.IH" by (subst forward_release.simps) (auto intro: moves_trans)
  next
    case False
    then show ?thesis by (subst forward_release.simps) simp
  qed
qed

interpretation rd: delay_line "relayer_delay_step pdata net delay" delay "discard_shared pdata"
  for pdata net delay
proof unfold_locales
  fix inp :: "('a banking_batch, 'b mirror \<times> 'c) relayer_in"
    and st :: "('a banking_batch, 'b mirror \<times> 'c) delay_st"
  let ?m = "dl_moves delay (discard_shared pdata)"
  have swept: "?m st (dl_interfere (sweep_shared (ri_clk inp)) (dl_interfere (ri_before_sweep inp) st))"
    for st :: "('a banking_batch, 'b mirror \<times> 'c) delay_st"
    by (blast intro: move_step dl_move.interfere)
  have pushed: "?m st (dl_push delay (ri_t1 inp) batch
      (dl_interfere (mirror_banking_batch pdata net batch) (dl_interfere (ri_before_mirror inp) st)))" for batch
    by (blast intro: move_step dl_move.interfere dl_move.push)
  have released: "?m st (relayer_release (discard_shared pdata) inp 0
      (dl_interfere (sweep_shared (ri_clk inp)) (dl_interfere (ri_before_sweep inp) st)))"
    for st :: "('a banking_batch, 'b mirror \<times> 'c) delay_st"
    by (rule moves_trans [OF swept relayer_release_moves])
  have "?m st (st\<lparr>dl_done := True\<rparr>)" by (blast intro: dl_move.stop)
  then show "?m st (relayer_delay_step pdata net delay inp st)"
    unfolding relayer_delay_step_def
    using released moves_trans [OF pushed released] by (simp split: recv_timeout.split)
qed

interpretation df: delay_line "delay_forward_step delay on_receive on_release" delay on_release
  for delay on_receive on_release
proof unfold_locales
  fix inp :: "('a, 'b) forward_in" and st :: "('a, 'b) delay_st"
  have "dl_moves delay on_release st (st\<lparr>dl_done := True\<rparr>)" by (blast intro: dl_move.stop)
  moreover have "dl_moves delay on_release st (dl_push delay (fi_t inp) x
      (dl_interfere (on_receive x) (dl_interfere (fi_before_receive inp) st)))" for x
    by (blast intro: move_step dl_move.interfere dl_move.push)
  ultimately show "dl_moves delay on_release st (delay_forward_step delay on_receive on_release inp st)"
    unfolding delay_forward_step_def
    using forward_release_moves [of delay on_release st inp 0] by (simp split: option.split bcast.split)
qed

section \<open>What a release sends\<close>

definition due_prefix :: "instant \<Rightarrow> 'a delay_queue \<Rightarrow> 'a delay_queue" where
  "due_prefix now q = takeWhile (\<lambda>(at, x). at \<le> now) q"

definition not_due :: "instant \<Rightarrow> 'a delay_queue \<Rightarrow> 'a delay_queue" where
  "not_due now q = dropWhile (\<lambda>(at, x). at \<le> now) q"

lemma due_simps [simp]:
  "due_prefix now [] = []" "not_due now [] = []"
  "due_prefix now ((at, x) # q) = (if at \<le> now then (at, x) # due_prefix now q else [])"
  "not_due now ((at, x) # q) = (if at \<le> now then not_due now q else (at, x) # q)"
  by (simp_all add: due_prefix_def not_due_def)

lemma front_due_Cons:
  assumes "front_due now (dl_queue st)"
  obtains at x q where "dl_queue st = (at, x) # q" and "at \<le> now"
  using assms by (auto simp: front_due_def split: list.splits)

lemma not_front_due: "\<not> front_due now q \<Longrightarrow> due_prefix now q = [] \<and> not_due now q = q"
  by (cases q) (auto simp: front_due_def)

lemma relayer_release_sends:
  "(\<forall>i. ri_send_ok inp i) \<Longrightarrow>
   map (\<lambda>si. (si_at si, si_item si)) (dl_sent (relayer_release filt inp i st)) =
     map (\<lambda>si. (si_at si, si_item si)) (dl_sent st) @ due_prefix (ri_t2 inp) (dl_queue st) \<and>
   dl_queue (relayer_release filt inp i st) = not_due (ri_t2 inp) (dl_queue st) \<and>
   dl_done (relayer_release filt inp i st) = dl_done st"
proof (induction filt inp i st rule: relayer_release.induct)
  case (1 filt inp i st)
  show ?case
  proof (cases "front_due (ri_t2 inp) (dl_queue st)")
    case True
    then obtain at x q where q: "dl_queue st = (at, x) # q" and "at \<le> ri_t2 inp"
      by (rule front_due_Cons)
    then show ?thesis
      using True "1.IH" [OF True refl] "1.prems"
      by (subst (1 2 3) relayer_release.simps) (simp add: Let_def dl_pop_def dl_interfere_def)
  next
    case False
    then show ?thesis
      using not_front_due by (subst (1 2 3) relayer_release.simps) auto
  qed
qed

lemma forward_release_sends:
  "map (\<lambda>si. (si_at si, si_item si)) (dl_sent (forward_release filt inp i st)) =
     map (\<lambda>si. (si_at si, si_item si)) (dl_sent st) @ due_prefix (fi_now inp) (dl_queue st) \<and>
   dl_queue (forward_release filt inp i st) = not_due (fi_now inp) (dl_queue st)"
proof (induction filt inp i st rule: forward_release.induct)
  case (1 filt inp i st)
  show ?case
  proof (cases "front_due (fi_now inp) (dl_queue st)")
    case True
    then obtain at x q where q: "dl_queue st = (at, x) # q" and "at \<le> fi_now inp"
      by (rule front_due_Cons)
    then show ?thesis
      using True "1.IH" [OF True]
      by (subst (1 2) forward_release.simps) (simp add: dl_pop_def dl_interfere_def)
  next
    case False
    then show ?thesis
      using not_front_due by (subst (1 2) forward_release.simps) auto
  qed
qed

section \<open>What the loops take from their channels\<close>

text \<open>
  The items that the receive arm of a loop takes, with the instant read when they are queued: a pass that
  finds the loop running and gets an item takes it.
\<close>

fun relayer_taken :: "'b pdata \<Rightarrow> ('c, 'w) net \<Rightarrow> duration \<Rightarrow>
    ('b banking_batch, 'c mirror \<times> 'w) relayer_in list \<Rightarrow>
    ('b banking_batch, 'c mirror \<times> 'w) delay_st \<Rightarrow> (instant \<times> 'b banking_batch) list" where
  "relayer_taken pdata net delay [] st = []"
| "relayer_taken pdata net delay (inp # inps) st =
     (case ri_recv inp of RtOk batch \<Rightarrow> if dl_done st \<or> ri_exit inp then [] else [(ri_t1 inp, batch)] | _ \<Rightarrow> []) @
     relayer_taken pdata net delay inps (relayer_delay_step pdata net delay inp st)"

fun forward_taken :: "duration \<Rightarrow> ('a \<Rightarrow> 's \<Rightarrow> 's) \<Rightarrow> ('s \<Rightarrow> 'a \<Rightarrow> 'a) \<Rightarrow> ('a, 's) forward_in list \<Rightarrow>
    ('a, 's) delay_st \<Rightarrow> (instant \<times> 'a) list" where
  "forward_taken delay on_receive on_release [] st = []"
| "forward_taken delay on_receive on_release (inp # inps) st =
     (case fi_recv inp of
        Some (BcOk x) \<Rightarrow>
          if dl_done st \<or> fi_shutdown inp \<or> (dl_queue st \<noteq> [] \<and> fi_timer inp) then [] else [(fi_t inp, x)]
      | _ \<Rightarrow> []) @
     forward_taken delay on_receive on_release inps (delay_forward_step delay on_receive on_release inp st)"

lemma recvd_simps [simp]:
  "dl_recvd (dl_interfere f st) = dl_recvd st" "dl_recvd (dl_pop filt now st) = dl_recvd st"
  "dl_recvd (dl_push delay now x st) = dl_recvd st @ [(now, x)]"
  by (simp_all add: dl_interfere_def dl_push_def dl_pop_def split: list.splits)

lemma recvd_relayer_release [simp]: "dl_recvd (relayer_release filt inp i st) = dl_recvd st"
proof (induction filt inp i st rule: relayer_release.induct)
  case (1 filt inp i st)
  then show ?case by (subst relayer_release.simps) (simp add: Let_def)
qed

lemma recvd_forward_release [simp]: "dl_recvd (forward_release filt inp i st) = dl_recvd st"
proof (induction filt inp i st rule: forward_release.induct)
  case (1 filt inp i st)
  then show ?case by (subst forward_release.simps) simp
qed

lemma relayer_recvd:
  "dl_recvd (relayer_delay_run pdata net delay inps st) = dl_recvd st @ relayer_taken pdata net delay inps st"
  unfolding relayer_delay_run_def
  by (induction inps arbitrary: st) (simp_all add: relayer_delay_step_def split: recv_timeout.split)

lemma forward_recvd:
  "dl_recvd (delay_forward delay on_receive on_release inps st) =
     dl_recvd st @ forward_taken delay on_receive on_release inps st"
  unfolding delay_forward_def
  by (induction inps arbitrary: st) (simp_all add: delay_forward_step_def split: option.split bcast.split)

section \<open>A run\<close>

text \<open>
  The concrete run the witnesses use: a batch of one packet is queued at 5, nothing is due; the next
  pass times out and releases it at 200. The filter set blocks its signature.
\<close>

definition net_example :: "(unit, unit) net" where
  "net_example = \<lparr>nt_system_time = (\<lambda>w. (0, w)), nt_send_datagram = (\<lambda>_ _ w. (DgOk, w))\<rparr>"

definition pdata_example :: "bytes pdata" where
  "pdata_example p = Some (pk_buffer p)"

definition batch_example :: "bytes banking_batch" where
  "batch_example = [[packet_example (replicate 65 7)]]"

definition shared_example :: "unit mirror \<times> unit" where
  "shared_example = (mirror_example\<lparr>mi_filter_set := fs_example\<rparr>, ())"

definition pass_example :: "bytes banking_batch recv_timeout \<Rightarrow> instant \<Rightarrow> instant \<Rightarrow>
    (bytes banking_batch, unit mirror \<times> unit) relayer_in" where
  "pass_example r t1 t2 = \<lparr>ri_exit = False, ri_t0 = t1, ri_recv = r, ri_t1 = t1, ri_clk = (\<lambda>_. t1),
     ri_t2 = t2, ri_send_ok = (\<lambda>_. True), ri_before_mirror = (\<lambda>s. s), ri_before_sweep = (\<lambda>s. s),
     ri_before_release = (\<lambda>_ s. s)\<rparr>"

definition passes_example where
  "passes_example batch = [pass_example (RtOk batch) 5 6, pass_example RtTimeout 150 200]"

lemma sweep_example: "t < 2000000000 \<Longrightarrow> fs_sweep (\<lambda>_. t) fs_example = fs_example"
  by (simp add: fs_sweep_def fs_example_def fs_insert_def filter_set_default_def fs_is_empty_def
      hm_insert_def hm_empty_def hm_retain_def hm_len_def TTL_def from_secs_def elapsed_def Let_def)

lemma passes_example_run:
  "relayer_delay_run pdata_example net_example 100 (passes_example batch) (delay_init shared_example) =
   \<lparr>dl_queue = [], dl_recvd = [(5, batch)],
     dl_sent = [\<lparr>si_now = 200, si_at = 105, si_shared = shared_example, si_item = batch,
       si_out = discard_filtered pdata_example fs_example batch\<rparr>],
     dl_shared = shared_example, dl_done = False\<rparr>"
  by (simp add: relayer_delay_run_def passes_example_def pass_example_def relayer_delay_step_def
      delay_init_def dl_push_def dl_interfere_def relayer_release.simps front_due_def dl_pop_def
      sweep_shared_def shared_example_def sweep_example discard_shared_def
      mirror_banking_batch_eq fold_mirror_send_disconnected)

section \<open>Properties\<close>

text \<open>
  C7: the TPU delay thread, for every sequence of passes and every interference of the other tasks:
  it takes every batch that the channel gives it and loses, duplicates and reorders nothing (what it took
  is what it sent followed by what it still holds); it sends the \<open>i\<close>-th batch no earlier than the delay after the instant at which it queued it;
  and what it sends is that batch under \<open>discard_filtered\<close> with the filter set of the moment of release.
\<close>

theorem relayer_delay_run_correct:
  assumes "relayer_delay_run pdata net delay inps (delay_init s) = st"
  shows "dl_recvd st = relayer_taken pdata net delay inps (delay_init s) \<and>
    map snd (dl_recvd st) = map si_item (dl_sent st) @ map snd (dl_queue st) \<and>
    (\<forall>i < length (dl_sent st).
       fst (dl_recvd st ! i) + delay \<le> si_now (dl_sent st ! i) \<and>
       si_out (dl_sent st ! i) =
         discard_filtered pdata (mi_filter_set (fst (si_shared (dl_sent st ! i)))) (snd (dl_recvd st ! i)))"
  using assms rd.run_items [of pdata net delay inps s st] rd.run_delay [of pdata net delay inps s st]
    relayer_recvd [of pdata net delay inps "delay_init s"]
  by (simp add: relayer_delay_run_def discard_shared_def delay_init_def)

theorem relayer_delay_run_correct_witness:
  "relayer_taken pdata_example net_example 100 (passes_example batch_example) (delay_init shared_example) =
     [(5, batch_example)] \<and> (5 :: nat) + 100 \<le> 200"
  using relayer_delay_run_correct [OF passes_example_run [of batch_example]] by (simp add: eq_commute)

text \<open>
  C16: the same for \<open>delay_forward\<close>, with any receive and release hook: the items sent are the items
  it took from the channel, in order, none lost but those still held, each at least the delay after it was queued and
  with the release hook applied to the shared data of that moment.
\<close>

theorem delay_forward_correct:
  assumes "delay_forward delay on_receive on_release inps (delay_init s) = st"
  shows "dl_recvd st = forward_taken delay on_receive on_release inps (delay_init s) \<and>
    map snd (dl_recvd st) = map si_item (dl_sent st) @ map snd (dl_queue st) \<and>
    (\<forall>i < length (dl_sent st).
       fst (dl_recvd st ! i) + delay \<le> si_now (dl_sent st ! i) \<and>
       si_out (dl_sent st ! i) = on_release (si_shared (dl_sent st ! i)) (snd (dl_recvd st ! i)))"
  using assms df.run_items [of delay on_receive on_release inps s st]
    df.run_delay [of delay on_receive on_release inps s st]
    forward_recvd [of delay on_receive on_release inps "delay_init s"]
  by (simp add: delay_forward_def delay_init_def)

text \<open>A run for the witness: one item is queued at 5, its timer fires and it is released at 105.\<close>

definition forward_example :: "(nat, nat) forward_in list" where
  "forward_example =
     [\<lparr>fi_shutdown = False, fi_timer = False, fi_now = 0, fi_recv = Some (BcOk 7), fi_t = 5,
        fi_before_receive = (\<lambda>s. s), fi_before_release = (\<lambda>_ s. s)\<rparr>,
      \<lparr>fi_shutdown = False, fi_timer = True, fi_now = 105, fi_recv = None, fi_t = 0,
        fi_before_receive = (\<lambda>s. s), fi_before_release = (\<lambda>_ s. s + 1)\<rparr>]"

lemma forward_example_run:
  "delay_forward 100 (\<lambda>_ s. s) (\<lambda>s x. s + x) forward_example (delay_init 3) =
   \<lparr>dl_queue = [], dl_recvd = [(5, 7)],
     dl_sent = [\<lparr>si_now = 105, si_at = 105, si_shared = 4, si_item = 7, si_out = 11\<rparr>],
     dl_shared = 4, dl_done = False\<rparr>"
  by (simp add: delay_forward_def forward_example_def delay_forward_step_def delay_init_def
      dl_push_def dl_interfere_def forward_release.simps front_due_def dl_pop_def)

theorem delay_forward_correct_witness:
  "(5 :: nat) + 100 \<le> 105 \<and> (11 :: nat) = (\<lambda>s x. s + x) 4 7"
  using delay_forward_correct [OF forward_example_run] by simp

section \<open>Filters at the release\<close>

definition shared_wf :: "'c mirror \<times> 'w \<Rightarrow> bool" where
  "shared_wf mw \<longleftrightarrow> fs_wf (mi_filter_set (fst mw))"

text \<open>The other tasks keep the filter set well-formed.\<close>

definition keeps_wf :: "('c mirror \<times> 'w \<Rightarrow> 'c mirror \<times> 'w) \<Rightarrow> bool" where
  "keeps_wf f \<longleftrightarrow> (\<forall>mw. shared_wf mw \<longrightarrow> shared_wf (f mw))"

definition relayer_in_ok :: "('a, 'c mirror \<times> 'w) relayer_in \<Rightarrow> bool" where
  "relayer_in_ok inp \<longleftrightarrow> keeps_wf (ri_before_mirror inp) \<and> keeps_wf (ri_before_sweep inp) \<and>
     (\<forall>i. keeps_wf (ri_before_release inp i))"

definition dl_wf :: "('a, 'c mirror \<times> 'w) delay_st \<Rightarrow> bool" where
  "dl_wf st \<longleftrightarrow> shared_wf (dl_shared st) \<and> (\<forall>si \<in> set (dl_sent st). shared_wf (si_shared si))"

lemma dl_wf_interfere: "keeps_wf f \<Longrightarrow> dl_wf st \<Longrightarrow> dl_wf (dl_interfere f st)"
  by (cases "dl_shared st") (simp add: dl_wf_def dl_interfere_def keeps_wf_def)

lemma dl_wf_push: "dl_wf st \<Longrightarrow> dl_wf (dl_push delay now x st)"
  by (simp add: dl_wf_def dl_push_def)

lemma dl_wf_pop: "dl_wf st \<Longrightarrow> dl_wf (dl_pop filt now st)"
  by (auto simp: dl_wf_def dl_pop_def split: list.splits)

lemma dl_wf_done [simp]: "dl_wf (st\<lparr>dl_done := b\<rparr>) = dl_wf st"
  by (simp add: dl_wf_def)

lemma keeps_wf_sweep: "keeps_wf (sweep_shared clk)"
  by (auto simp: keeps_wf_def shared_wf_def sweep_shared_def)

lemma mirror_send_filter_set [simp]:
  "mi_filter_set (fst (mirror_send net source d mw)) = mi_filter_set (fst mw)"
  by (simp add: mirror_send_def split: prod.splits option.splits)

lemma fold_mirror_send_filter_set:
  "mi_filter_set (fst (fold (mirror_send net source) ds mw)) = mi_filter_set (fst mw)"
  by (induction ds arbitrary: mw) simp_all

lemma keeps_wf_mirror: "keeps_wf (mirror_banking_batch pdata net batch)"
  by (simp add: keeps_wf_def shared_wf_def mirror_banking_batch_eq fold_mirror_send_filter_set)

lemma dl_wf_release:
  "(\<forall>i. keeps_wf (ri_before_release inp i)) \<Longrightarrow> dl_wf st \<Longrightarrow> dl_wf (relayer_release filt inp i st)"
proof (induction filt inp i st rule: relayer_release.induct)
  case (1 filt inp i st)
  then show ?case
    by (subst relayer_release.simps) (auto simp: Let_def intro!: dl_wf_pop dl_wf_interfere)
qed

lemma dl_wf_step:
  "relayer_in_ok inp \<Longrightarrow> dl_wf st \<Longrightarrow> dl_wf (relayer_delay_step pdata net delay inp st)"
  by (auto simp: relayer_delay_step_def relayer_in_ok_def split: recv_timeout.splits
      intro!: dl_wf_release dl_wf_interfere dl_wf_push keeps_wf_sweep keeps_wf_mirror)

lemma dl_wf_run:
  "\<forall>inp \<in> set inps. relayer_in_ok inp \<Longrightarrow> dl_wf st \<Longrightarrow> dl_wf (relayer_delay_run pdata net delay inps st)"
  unfolding relayer_delay_run_def
  by (induction inps arbitrary: st) (simp_all add: dl_wf_step)

definition forward_in_ok :: "('a, 'c mirror \<times> 'w) forward_in \<Rightarrow> bool" where
  "forward_in_ok inp \<longleftrightarrow> keeps_wf (fi_before_receive inp) \<and> (\<forall>i. keeps_wf (fi_before_release inp i))"

lemma dl_wf_forward_release:
  "(\<forall>i. keeps_wf (fi_before_release inp i)) \<Longrightarrow> dl_wf st \<Longrightarrow> dl_wf (forward_release filt inp i st)"
proof (induction filt inp i st rule: forward_release.induct)
  case (1 filt inp i st)
  then show ?case
    by (subst forward_release.simps) (auto intro!: dl_wf_pop dl_wf_interfere)
qed

lemma dl_wf_forward:
  assumes "\<And>x. keeps_wf (on_receive x)" and "\<forall>inp \<in> set inps. forward_in_ok inp" and "dl_wf st"
  shows "dl_wf (delay_forward delay on_receive on_release inps st)"
proof -
  have "dl_wf (delay_forward_step delay on_receive on_release inp st)" if "forward_in_ok inp" "dl_wf st" for inp st
    using that assms(1) by (auto simp: delay_forward_step_def forward_in_ok_def split: option.split bcast.split
        intro!: dl_wf_forward_release dl_wf_interfere dl_wf_push)
  then show ?thesis
    unfolding delay_forward_def using assms(2,3) by (induction inps arbitrary: st) simp_all
qed

text \<open>
  As long as the other tasks keep the filter set well-formed, which its own operations do, no
  batch the thread sends to the forwarder has a live packet whose first signature is in the filter set
  at the moment of release; and the live packets it sends are exactly those that were live on reception
  and are not so blocked.
\<close>

theorem relayer_delay_run_blocks:
  assumes "relayer_delay_run pdata net delay inps (delay_init s) = st"
    and "shared_wf s" and "\<forall>inp \<in> set inps. relayer_in_ok inp"
    and "si \<in> set (dl_sent st)"
  shows "batch_units (si_out si) =
    filter (\<lambda>p. \<forall>sig \<in> batch_unit_sigs pdata p. \<not> fs_blocks (mi_filter_set (fst (si_shared si))) sig)
      (batch_units (si_item si))"
proof -
  have "dl_wf (delay_init s)" using assms(2) by (simp add: dl_wf_def delay_init_def)
  then have wf: "fs_wf (mi_filter_set (fst (si_shared si)))"
    using dl_wf_run [OF assms(3), of "delay_init s" pdata net delay] assms(1,4)
    by (auto simp: dl_wf_def shared_wf_def)
  have "dl_inv delay (discard_shared pdata) st"
    using rd.run_inv [of delay pdata "delay_init s" net inps] assms(1) by (simp add: relayer_delay_run_def)
  then have "si_out si = discard_filtered pdata (mi_filter_set (fst (si_shared si))) (si_item si)"
    using assms(4) by (simp add: dl_inv_def discard_shared_def)
  then show ?thesis using bank.units_filt_wf [OF wf, of pdata "si_item si"] by simp
qed

theorem relayer_delay_run_blocks_witness:
  "batch_units (discard_filtered pdata_example fs_example batch_example) = []"
proof -
  have "batch_units (discard_filtered pdata_example fs_example batch_example) =
    filter (\<lambda>p. \<forall>sig \<in> batch_unit_sigs pdata_example p. \<not> fs_blocks fs_example sig)
      (batch_units batch_example)"
    using relayer_delay_run_blocks [OF passes_example_run [of batch_example], of "\<lparr>si_now = 200, si_at = 105,
        si_shared = shared_example, si_item = batch_example,
        si_out = discard_filtered pdata_example fs_example batch_example\<rparr>"] fs_wf_example
    by (simp add: shared_wf_def shared_example_def relayer_in_ok_def keeps_wf_def passes_example_def
        pass_example_def)
  also have "\<dots> = []"
    by (simp add: batch_units_def batch_example_def batch_unit_sigs_def pdata_example_def
        packet_example_def data_sigs_def first_signature_eq fs_blocks_example meta_example_def)
  finally show ?thesis .
qed

text \<open>
  A pass that finds the exit flag clear and whose sends succeed releases everything that is due:
  it sends, after what it sent before, exactly the longest prefix of the queue (the new batch included)
  with release instants up to the instant it read, and keeps the rest.
\<close>

theorem relayer_delay_step_releases:
  assumes "\<not> dl_done st" and "\<not> ri_exit inp" and "\<forall>i. ri_send_ok inp i"
    and "ri_recv inp \<noteq> RtDisconnected"
    and "q = dl_queue st @ (case ri_recv inp of RtOk b \<Rightarrow> [(ri_t1 inp + delay, b)] | _ \<Rightarrow> [])"
  shows "map si_item (dl_sent (relayer_delay_step pdata net delay inp st)) =
      map si_item (dl_sent st) @ map snd (takeWhile (\<lambda>(at, x). at \<le> ri_t2 inp) q) \<and>
    dl_queue (relayer_delay_step pdata net delay inp st) = dropWhile (\<lambda>(at, x). at \<le> ri_t2 inp) q \<and>
    \<not> dl_done (relayer_delay_step pdata net delay inp st)"
proof -
  define st0 where "st0 = (case ri_recv inp of
      RtOk b \<Rightarrow> dl_push delay (ri_t1 inp) b
        (dl_interfere (mirror_banking_batch pdata net b) (dl_interfere (ri_before_mirror inp) st))
    | _ \<Rightarrow> st)"
  define st1 where
    "st1 = dl_interfere (sweep_shared (ri_clk inp)) (dl_interfere (ri_before_sweep inp) st0)"
  have step: "relayer_delay_step pdata net delay inp st = relayer_release (discard_shared pdata) inp 0 st1"
    using assms(1,2,4) by (cases "ri_recv inp") (simp_all add: relayer_delay_step_def st1_def st0_def)
  have st1: "dl_queue st1 = q" "dl_sent st1 = dl_sent st" "dl_done st1 = dl_done st"
    using assms(4,5)
    by (cases "ri_recv inp"; simp add: st1_def st0_def dl_interfere_def dl_push_def)+
  have rel: "map (\<lambda>si. (si_at si, si_item si)) (dl_sent (relayer_release (discard_shared pdata) inp 0 st1)) =
      map (\<lambda>si. (si_at si, si_item si)) (dl_sent st) @ due_prefix (ri_t2 inp) q"
    "dl_queue (relayer_release (discard_shared pdata) inp 0 st1) = not_due (ri_t2 inp) q"
    "dl_done (relayer_release (discard_shared pdata) inp 0 st1) = dl_done st"
    using relayer_release_sends [of inp "discard_shared pdata" 0 st1, OF assms(3)] st1 by simp_all
  from arg_cong [OF rel(1), of "map snd"] show ?thesis
    using rel(2,3) assms(1) by (simp add: step comp_def due_prefix_def not_due_def)
qed

theorem relayer_delay_step_releases_witness:
  "map si_item (dl_sent (relayer_delay_step pdata_example net_example 100
     (pass_example (RtOk batch_example) 5 200) (delay_init shared_example))) = [batch_example]"
  using relayer_delay_step_releases [of "delay_init shared_example"
      "pass_example (RtOk batch_example) 5 200" "[(105, batch_example)]" 100 pdata_example net_example]
  by (simp add: delay_init_def pass_example_def)

text \<open>The timeout of a pass ends at the release instant of the front item, or at once if that has passed.\<close>

lemma relayer_timeout_front:
  "t0 + relayer_timeout t0 ((at, x) # q) = max t0 at"
  by (simp add: relayer_timeout_def saturating_duration_since_def)

end
