(* ===== verification/Bundle_Stream.thy ===== *)
theory Bundle_Stream
  imports Mirror "HOL-Library.Sublist"
begin

text \<open>
  The bundle streams of \<open>src/proxy/mirror.rs\<close>: \<open>mirror_bundles_out\<close>, which writes every bundle
  response as a length-prefixed frame, and \<open>read_bundle_stream\<close>, which reads such frames from the
  server and hands the responses to the validator's channel. The protobuf codec is generated code:
  it is the parameters \<open>enc\<close> and \<open>dec\<close>.
\<close>

definition MAX_BUNDLE_FRAME :: nat where
  "MAX_BUNDLE_FRAME = 4 * 1024 * 1024"

type_synonym 'e encoder = "be_bundles_response \<Rightarrow> (bytes, 'e) result"
type_synonym 'e decoder = "bytes \<Rightarrow> (be_bundles_response, 'e) result"

section \<open>Reading\<close>

text \<open>\<open>RecvStream::read_exact\<close> on the bytes the peer sends before the stream ends.\<close>

definition read_exact :: "nat \<Rightarrow> bytes \<Rightarrow> (bytes \<times> bytes) option" where
  "read_exact n bs = (if n \<le> length bs then Some (take n bs, drop n bs) else None)"

datatype stream_end = EndShutdown | EndRead | EndOversized nat

definition count_received :: "be_bundles_response \<Rightarrow> mirror_stats \<Rightarrow> mirror_stats" where
  "count_received resp st =
     st\<lparr>bundles_received := bundles_received st + of_nat (length (bb_bundles resp))\<rparr>"

text \<open>
  \<open>shut k\<close> is the shutdown flag at the \<open>k\<close>-th test of the loop. The result is the counters, the
  responses sent to the channel and why the loop ended.
\<close>

function read_bundle_stream :: "'e decoder \<Rightarrow> (nat \<Rightarrow> bool) \<Rightarrow> nat \<Rightarrow> bytes \<Rightarrow> mirror_stats \<Rightarrow>
    mirror_stats \<times> be_bundles_response list \<times> stream_end" where
  "read_bundle_stream dec shut k bs st =
     (if shut k then (st, [], EndShutdown)
      else case read_exact 4 bs of
          None \<Rightarrow> (st, [], EndRead)
        | Some (len_buf, bs1) \<Rightarrow>
            (let len = unat (u32_from_le_bytes len_buf)
             in if MAX_BUNDLE_FRAME < len then (st, [], EndOversized len)
                else case read_exact len bs1 of
                    None \<Rightarrow> (st, [], EndRead)
                  | Some (buf, bs2) \<Rightarrow>
                      (case dec buf of
                         Ok resp \<Rightarrow>
                           (case read_bundle_stream dec shut (Suc k) bs2 (count_received resp st) of
                              (st', out, why) \<Rightarrow> (st', resp # out, why))
                       | Err _ \<Rightarrow> read_bundle_stream dec shut (Suc k) bs2 st)))"
  by pat_completeness auto
termination
  by (relation "measure (\<lambda>(dec, shut, k, bs, st). length bs)")
    (auto simp: read_exact_def split: if_splits)

declare read_bundle_stream.simps [simp del]

section \<open>Writing\<close>

text \<open>
  \<open>mirror_bundles_out\<close> as the task that \<open>select!\<close> polls: \<open>out_at\<close> says at which \<open>await\<close> it stands, with the
  rest of the current \<open>write_all\<close>, and an event is what that \<open>await\<close> yields. A write takes some of the bytes;
  \<open>write_all\<close> returns when none is left, so at once for an empty body. While it writes, the task does not
  look at the shutdown channel. The two lists of responses are those \<open>recv\<close> gave and those written in full.
\<close>

datatype out_event =
    OeOpened | OeOpenErr | OeShutdown | OeRecv be_bundles_response | OeLagged u64 | OeClosed
  | OeWrite nat | OeWriteErr

datatype out_at =
    OutOpening | OutIdle
  | OutLength be_bundles_response bytes bytes
  | OutBody be_bundles_response bytes
  | OutDone bool

record bundle_out =
  bo_at :: out_at
  bo_stream :: bytes
  bo_taken :: "be_bundles_response list"
  bo_written :: "be_bundles_response list"

definition bundle_out_init :: bundle_out where
  "bundle_out_init = \<lparr>bo_at = OutOpening, bo_stream = [], bo_taken = [], bo_written = []\<rparr>"

definition bundle_frame :: "bytes \<Rightarrow> bytes" where
  "bundle_frame buf = u32_to_le_bytes (of_nat (length buf)) @ buf"

definition out_wrote :: "be_bundles_response \<Rightarrow> bundle_out \<times> mirror_stats \<Rightarrow> bundle_out \<times> mirror_stats" where
  "out_wrote resp bs =
     (case bs of (b, st) \<Rightarrow>
       (b\<lparr>bo_at := OutIdle, bo_written := bo_written b @ [resp]\<rparr>,
        st\<lparr>bundles_sent := bundles_sent st + of_nat (length (bb_bundles resp))\<rparr>))"

definition out_recv :: "'e encoder \<Rightarrow> be_bundles_response \<Rightarrow> bundle_out \<Rightarrow> bundle_out" where
  "out_recv enc resp b =
     b\<lparr>bo_taken := bo_taken b @ [resp],
       bo_at := (case enc resp of Err _ \<Rightarrow> OutIdle
         | Ok buf \<Rightarrow> OutLength resp (u32_to_le_bytes (of_nat (length buf))) buf)\<rparr>"

fun out_step :: "'e encoder \<Rightarrow> out_event \<Rightarrow> bundle_out \<times> mirror_stats \<Rightarrow> bundle_out \<times> mirror_stats" where
  "out_step enc ev (b, st) =
     (case (bo_at b, ev) of
        (OutOpening, OeOpened) \<Rightarrow> (b\<lparr>bo_at := OutIdle\<rparr>, st)
      | (OutOpening, OeOpenErr) \<Rightarrow> (b\<lparr>bo_at := OutDone False\<rparr>, st)
      | (OutIdle, OeShutdown) \<Rightarrow> (b\<lparr>bo_at := OutDone True\<rparr>, st)
      | (OutIdle, OeRecv resp) \<Rightarrow> (out_recv enc resp b, st)
      | (OutIdle, OeLagged n) \<Rightarrow> (b, st)
      | (OutIdle, OeClosed) \<Rightarrow> (b\<lparr>bo_at := OutDone True\<rparr>, st)
      | (OutLength resp rest buf, OeWrite n) \<Rightarrow>
          (let b' = b\<lparr>bo_stream := bo_stream b @ take n rest\<rparr>
           in if n < length rest then (b'\<lparr>bo_at := OutLength resp (drop n rest) buf\<rparr>, st)
              else if buf = [] then out_wrote resp (b', st)
              else (b'\<lparr>bo_at := OutBody resp buf\<rparr>, st))
      | (OutLength resp rest buf, OeWriteErr) \<Rightarrow> (b\<lparr>bo_at := OutDone False\<rparr>, st)
      | (OutBody resp rest, OeWrite n) \<Rightarrow>
          (let b' = b\<lparr>bo_stream := bo_stream b @ take n rest\<rparr>
           in if n < length rest then (b'\<lparr>bo_at := OutBody resp (drop n rest)\<rparr>, st)
              else out_wrote resp (b', st))
      | (OutBody resp rest, OeWriteErr) \<Rightarrow> (b\<lparr>bo_at := OutDone False\<rparr>, st)
      | _ \<Rightarrow> (b, st))"

declare out_step.simps [simp del]

definition mirror_bundles_out :: "'e encoder \<Rightarrow> out_event list \<Rightarrow> mirror_stats \<Rightarrow> bundle_out \<times> mirror_stats" where
  "mirror_bundles_out enc evs st = fold (out_step enc) evs (bundle_out_init, st)"

section \<open>Accepting streams\<close>

text \<open>
  One poll of the biased select of \<open>read_bundles\<close>: shutdown, a stream accepted, or the connection lost.
  The result: the streams for which a reader was spawned, and whether the loop has returned.
\<close>

datatype 'r accepted = AcShutdown | AcOk 'r | AcErr string

fun read_bundles :: "'r accepted list \<Rightarrow> 'r list \<times> bool" where
  "read_bundles [] = ([], False)"
| "read_bundles (AcShutdown # polls) = ([], True)"
| "read_bundles (AcOk recv # polls) = (case read_bundles polls of (rs, fin) \<Rightarrow> (recv # rs, fin))"
| "read_bundles (AcErr e # polls) = ([], True)"

lemma read_bundles_accepted:
  "map AcOk (fst (read_bundles polls)) = takeWhile (\<lambda>p. \<exists>r. p = AcOk r) polls \<and>
   (snd (read_bundles polls) \<longleftrightarrow> (\<exists>p \<in> set polls. \<forall>r. p \<noteq> AcOk r))"
  by (induction polls rule: read_bundles.induct) (auto simp: case_prod_beta)

section \<open>The frames of a byte string\<close>

lemma MAX_less: "n \<le> MAX_BUNDLE_FRAME \<Longrightarrow> n < 4294967296"
  by (simp add: MAX_BUNDLE_FRAME_def)

lemma unat_of_nat_u32 [simp]: "n < 4294967296 \<Longrightarrow> unat (of_nat n :: u32) = n"
  by (simp add: unat_of_nat)

lemma read_frame:
  assumes "\<not> shut k" and "length buf \<le> MAX_BUNDLE_FRAME"
  shows "read_bundle_stream dec shut k (bundle_frame buf @ bs) st =
    (case dec buf of
       Ok resp \<Rightarrow> (case read_bundle_stream dec shut (Suc k) bs (count_received resp st) of
          (st', out, why) \<Rightarrow> (st', resp # out, why))
     | Err _ \<Rightarrow> read_bundle_stream dec shut (Suc k) bs st)"
  using assms MAX_less [OF assms(2)]
  by (subst read_bundle_stream.simps) (simp add: bundle_frame_def read_exact_def Let_def)

lemma read_nothing: "\<not> shut k \<Longrightarrow> read_bundle_stream dec shut k [] st = (st, [], EndRead)"
  by (subst read_bundle_stream.simps) (simp add: read_exact_def)

definition decoded :: "'e decoder \<Rightarrow> bytes list \<Rightarrow> be_bundles_response list" where
  "decoded dec bufs = List.map_filter (\<lambda>b. case dec b of Ok r \<Rightarrow> Some r | Err _ \<Rightarrow> None) bufs"

lemma decoded_simps [simp]:
  "decoded dec [] = []"
  "decoded dec (b # bufs) = (case dec b of Ok r \<Rightarrow> r # decoded dec bufs | Err _ \<Rightarrow> decoded dec bufs)"
  by (simp_all add: decoded_def map_filter_simps split: result.splits)

text \<open>What is left of the bytes when the loop ends, by the reason it ended.\<close>

fun rest_matches :: "stream_end \<Rightarrow> bytes \<Rightarrow> bool" where
  "rest_matches EndShutdown rest = True"
| "rest_matches EndRead rest =
     (length rest < 4 \<or>
      length rest - 4 < unat (u32_from_le_bytes (take 4 rest)) \<and>
      unat (u32_from_le_bytes (take 4 rest)) \<le> MAX_BUNDLE_FRAME)"
| "rest_matches (EndOversized n) rest =
     (4 \<le> length rest \<and> n = unat (u32_from_le_bytes (take 4 rest)) \<and> MAX_BUNDLE_FRAME < n)"

lemma take_4_frame:
  assumes "4 \<le> length bs" and "n = unat (u32_from_le_bytes (take 4 bs))" and "n + 4 \<le> length bs"
  shows "bs = bundle_frame (take n (drop 4 bs)) @ drop (n + 4) bs"
proof -
  have "le_bytes 4 (le_value (take 4 bs)) = take 4 bs"
    using le_bytes_le_value [of "take 4 bs"] assms(1) by (simp add: min_absorb2)
  moreover have "unat (u32_from_le_bytes (take 4 bs)) = le_value (take 4 bs)"
    using assms(1) by (intro unat_u32_from_le_bytes) simp
  moreover have "n < 4294967296" using assms(2) by simp
  moreover have "length (take n (drop 4 bs)) = n" using assms(3) by simp
  ultimately have "bundle_frame (take n (drop 4 bs)) = take 4 bs @ take n (drop 4 bs)"
    using assms(2) unfolding bundle_frame_def u32_to_le_bytes_def by (metis unat_of_nat_u32)
  then show ?thesis
    by (metis append.assoc append_take_drop_id drop_drop)
qed

definition is_framing :: "bytes \<Rightarrow> bytes list \<Rightarrow> bytes \<Rightarrow> bool" where
  "is_framing bs bufs rest \<longleftrightarrow>
     bs = concat (map bundle_frame bufs) @ rest \<and> (\<forall>b \<in> set bufs. length b \<le> MAX_BUNDLE_FRAME)"

lemma is_framing_Cons:
  "length buf \<le> MAX_BUNDLE_FRAME \<Longrightarrow> is_framing bs bufs rest \<Longrightarrow>
   is_framing (bundle_frame buf @ bs) (buf # bufs) rest"
  by (simp add: is_framing_def)

text \<open>The outcome of the loop on a framing of its input.\<close>

definition read_outcome :: "'e decoder \<Rightarrow> (nat \<Rightarrow> bool) \<Rightarrow> nat \<Rightarrow> bytes list \<Rightarrow> bytes \<Rightarrow> mirror_stats \<Rightarrow>
    mirror_stats \<times> be_bundles_response list \<times> stream_end \<Rightarrow> bool" where
  "read_outcome dec shut k bufs rest st res \<longleftrightarrow>
     (case res of (st', out, why) \<Rightarrow>
        out = decoded dec bufs \<and> st' = fold count_received out st \<and> rest_matches why rest \<and>
        (why = EndShutdown \<longleftrightarrow> shut (k + length bufs)) \<and> (\<forall>i < length bufs. \<not> shut (k + i)))"

lemma read_outcome_step:
  assumes "\<not> shut k" and "length buf \<le> MAX_BUNDLE_FRAME"
    and "\<And>st. read_outcome dec shut (Suc k) bufs rest st (read_bundle_stream dec shut (Suc k) bs st)"
  shows "read_outcome dec shut k (buf # bufs) rest st
    (read_bundle_stream dec shut k (bundle_frame buf @ bs) st)"
proof -
  have "(\<forall>i < Suc n. \<not> shut (k + i)) \<longleftrightarrow> (\<forall>i < n. \<not> shut (Suc (k + i)))" for n
    using assms(1) by (auto simp: less_Suc_eq_0_disj)
  note shut_Suc = this
  show ?thesis
  proof (cases "dec buf")
    case (Ok r)
    then show ?thesis
      using assms(3) [of "count_received r st"] shut_Suc
      unfolding read_frame [where shut = shut, OF assms(1,2)]
      by (simp add: read_outcome_def case_prod_beta)
  next
    case (Err e)
    then show ?thesis
      using assms(3) [of st] shut_Suc
      unfolding read_frame [where shut = shut, OF assms(1,2)]
      by (simp add: read_outcome_def case_prod_beta)
  qed
qed

lemma read_bundle_stream_framing:
  "\<exists>bufs rest. is_framing bs bufs rest \<and>
     (\<forall>st. read_outcome dec shut k bufs rest st (read_bundle_stream dec shut k bs st))"
proof (induction "length bs" arbitrary: k bs rule: less_induct)
  case less
  define n where "n = unat (u32_from_le_bytes (take 4 bs))"
  show ?case
  proof (cases "shut k \<or> length bs < 4 \<or> MAX_BUNDLE_FRAME < n \<or> length bs < n + 4")
    case True
    then have "read_outcome dec shut k [] bs st (read_bundle_stream dec shut k bs st)" for st
      unfolding read_outcome_def
      by (subst read_bundle_stream.simps)
        (auto simp: read_exact_def Let_def n_def split: prod.splits)
    then show ?thesis
      by (intro exI [of _ "[]"] exI [of _ bs]) (simp add: is_framing_def)
  next
    case False
    define buf where "buf = take n (drop 4 bs)"
    define bs2 where "bs2 = drop (n + 4) bs"
    have bs: "bs = bundle_frame buf @ bs2"
      using False take_4_frame [of bs n] by (simp add: n_def buf_def bs2_def)
    have small: "length buf \<le> MAX_BUNDLE_FRAME" and up: "\<not> shut k" and shorter: "length bs2 < length bs"
      using False by (auto simp: buf_def bs2_def)
    from less [OF shorter, of "Suc k"] obtain bufs rest where fr: "is_framing bs2 bufs rest" and
      out: "\<And>st. read_outcome dec shut (Suc k) bufs rest st (read_bundle_stream dec shut (Suc k) bs2 st)"
      by blast
    have "read_outcome dec shut k (buf # bufs) rest st (read_bundle_stream dec shut k bs st)" for st
      using read_outcome_step [of shut k, OF up small out] by (simp add: bs)
    moreover have "is_framing bs (buf # bufs) rest"
      using is_framing_Cons [OF small fr] by (simp add: bs)
    ultimately show ?thesis by blast
  qed
qed

section \<open>Properties\<close>

text \<open>A codec for the witness: one byte per bundle.\<close>

definition enc_example :: "unit encoder" where
  "enc_example r = Ok (map (\<lambda>_. 1) (bb_bundles r))"

definition dec_example :: "unit decoder" where
  "dec_example bs = Ok \<lparr>bb_bundles = map (\<lambda>_. \<lparr>bu_bundle = None, bu_uuid = []\<rparr>) bs\<rparr>"

definition resp_example :: "nat \<Rightarrow> be_bundles_response" where
  "resp_example n = \<lparr>bb_bundles = replicate n \<lparr>bu_bundle = None, bu_uuid = []\<rparr>\<rparr>"

text \<open>
  C23: whatever bytes the peer sends, \<open>read_bundle_stream\<close> ends, and what it delivers is explained by a
  reading of the input: the input is a sequence of complete frames of at most 4 MiB followed by a rest; the
  responses delivered are the decodable frames in order, undecodable ones being skipped; the counter
  grows by the bundles delivered; and the loop stopped because of shutdown, because the rest is not a
  complete frame, or because the rest announces a frame above the limit, whose body is never read.
\<close>

theorem read_bundle_stream_total:
  "\<exists>bufs rest. bs = concat (map bundle_frame bufs) @ rest \<and>
     (\<forall>b \<in> set bufs. length b \<le> MAX_BUNDLE_FRAME) \<and>
     (case read_bundle_stream dec shut 0 bs st of (st', out, why) \<Rightarrow>
        out = decoded dec bufs \<and> st' = fold count_received out st \<and> rest_matches why rest \<and>
        (why = EndShutdown \<longleftrightarrow> shut (length bufs)))"
proof -
  obtain bufs rest where "is_framing bs bufs rest"
    and "read_outcome dec shut 0 bufs rest st (read_bundle_stream dec shut 0 bs st)"
    using read_bundle_stream_framing [of bs dec shut 0] by blast
  then show ?thesis
    by (intro exI [of _ bufs] exI [of _ rest]) (auto simp: is_framing_def read_outcome_def)
qed

theorem read_bundle_stream_total_witness:
  "\<exists>bufs rest. bundle_frame [1, 1] @ [9, 0] = concat (map bundle_frame bufs) @ rest \<and>
     (\<forall>b \<in> set bufs. length b \<le> MAX_BUNDLE_FRAME) \<and>
     (case read_bundle_stream dec_example (\<lambda>_. False) 0 (bundle_frame [1, 1] @ [9, 0]) stats_default of
        (st', out, why) \<Rightarrow>
          out = decoded dec_example bufs \<and> st' = fold count_received out stats_default \<and>
          rest_matches why rest \<and> (why = EndShutdown \<longleftrightarrow> False))"
  by (rule read_bundle_stream_total)

section \<open>What the writer leaves on the stream\<close>

definition frame_of :: "'e encoder \<Rightarrow> be_bundles_response \<Rightarrow> bytes" where
  "frame_of enc r = (case enc r of Ok b \<Rightarrow> bundle_frame b | Err _ \<Rightarrow> [])"

definition encodable :: "'e encoder \<Rightarrow> be_bundles_response \<Rightarrow> bool" where
  "encodable enc r = (case enc r of Ok _ \<Rightarrow> True | Err _ \<Rightarrow> False)"

text \<open>
  The frame that is under way: nothing, or the response whose frame is written up to a rest that is not
  empty.
\<close>

definition torn :: "'e encoder \<Rightarrow> bytes \<Rightarrow> bytes \<Rightarrow> be_bundles_response list \<Rightarrow> bool" where
  "torn enc partial rest lost \<longleftrightarrow>
     rest \<noteq> [] \<and> (\<exists>r buf. lost = [r] \<and> enc r = Ok buf \<and> partial @ rest = bundle_frame buf)"

fun flight :: "'e encoder \<Rightarrow> out_at \<Rightarrow> bytes \<Rightarrow> be_bundles_response list \<Rightarrow> bool" where
  "flight enc (OutLength r rest buf) partial lost =
     (rest \<noteq> [] \<and> enc r = Ok buf \<and> torn enc partial (rest @ buf) lost \<and> lost = [r])"
| "flight enc (OutBody r rest) partial lost = (torn enc partial rest lost \<and> lost = [r])"
| "flight enc (OutDone fin) partial lost =
     (partial = [] \<and> lost = [] \<or> (\<exists>rest. torn enc partial rest lost))"
| "flight enc _ partial lost = (partial = [] \<and> lost = [])"

definition out_inv :: "'e encoder \<Rightarrow> bundle_out \<Rightarrow> bool" where
  "out_inv enc b \<longleftrightarrow>
     (\<exists>partial lost. bo_stream b = concat (map (frame_of enc) (bo_written b)) @ partial \<and>
        filter (encodable enc) (bo_taken b) = bo_written b @ lost \<and> flight enc (bo_at b) partial lost)"

lemma out_inv_init [simp]: "out_inv enc bundle_out_init"
  by (simp add: out_inv_def bundle_out_init_def)

lemma torn_more: "torn enc partial rest lost \<Longrightarrow> n < length rest \<Longrightarrow> torn enc (partial @ take n rest) (drop n rest) lost"
  by (auto simp: torn_def)

lemma torn_frame: "torn enc partial rest [r] \<Longrightarrow> partial @ rest = frame_of enc r"
  by (auto simp: torn_def frame_of_def)

lemma out_inv_recv:
  assumes "out_inv enc b" and "bo_at b = OutIdle"
  shows "out_inv enc (out_recv enc r b)"
  using assms
  by (cases "enc r")
    (auto simp: out_inv_def out_recv_def encodable_def torn_def bundle_frame_def u32_to_le_bytes_def
      simp flip: length_0_conv)

lemma out_inv_wrote:
  assumes "bo_stream b @ rest = concat (map (frame_of enc) (bo_written b)) @ frame_of enc r"
    and "filter (encodable enc) (bo_taken b) = bo_written b @ [r]"
  shows "out_inv enc (fst (out_wrote r (b\<lparr>bo_stream := bo_stream b @ rest\<rparr>, st)))"
  using assms by (simp add: out_inv_def out_wrote_def)

lemma out_inv_length:
  assumes "out_inv enc b" and "bo_at b = OutLength r rest buf"
  shows "out_inv enc (fst (out_step enc (OeWrite n) (b, st)))"
proof -
  from assms obtain partial where
    stream: "bo_stream b = concat (map (frame_of enc) (bo_written b)) @ partial" and
    taken: "filter (encodable enc) (bo_taken b) = bo_written b @ [r]" and
    rest: "rest \<noteq> []" "enc r = Ok buf" and torn: "torn enc partial (rest @ buf) [r]"
    by (auto simp: out_inv_def)
  consider "n < length rest" | "length rest \<le> n" "buf = []" | "length rest \<le> n" "buf \<noteq> []" by fastforce
  then show ?thesis
  proof cases
    case 1
    then show ?thesis
      using assms(2) stream taken rest torn_more [OF torn, of n]
      by (auto simp: out_step.simps Let_def out_inv_def)
  next
    case 2
    then show ?thesis
      using assms(2) taken torn_frame [OF torn] out_inv_wrote [of b rest enc r] stream
      by (simp add: out_step.simps Let_def)
  next
    case 3
    then show ?thesis
      using assms(2) stream taken rest torn_more [OF torn, of "length rest"]
      by (auto simp: out_step.simps Let_def out_inv_def)
  qed
qed

lemma out_inv_body:
  assumes "out_inv enc b" and "bo_at b = OutBody r rest"
  shows "out_inv enc (fst (out_step enc (OeWrite n) (b, st)))"
proof -
  from assms obtain partial where
    stream: "bo_stream b = concat (map (frame_of enc) (bo_written b)) @ partial" and
    taken: "filter (encodable enc) (bo_taken b) = bo_written b @ [r]" and torn: "torn enc partial rest [r]"
    by (auto simp: out_inv_def)
  show ?thesis
  proof (cases "n < length rest")
    case True
    then show ?thesis
      using assms(2) stream taken torn_more [OF torn, of n]
      by (auto simp: out_step.simps Let_def out_inv_def)
  next
    case False
    then show ?thesis
      using assms(2) taken torn_frame [OF torn] out_inv_wrote [of b rest enc r] stream
      by (simp add: out_step.simps Let_def)
  qed
qed

lemma out_inv_done:
  assumes "out_inv enc b"
  shows "out_inv enc (b\<lparr>bo_at := OutDone fin\<rparr>)"
  using assms by (cases "bo_at b") (auto simp: out_inv_def)

lemma out_inv_idle: "out_inv enc b \<Longrightarrow> bo_at b = OutOpening \<Longrightarrow> out_inv enc (b\<lparr>bo_at := OutIdle\<rparr>)"
  by (simp add: out_inv_def)

lemma out_inv_step:
  assumes "out_inv enc b"
  shows "out_inv enc (fst (out_step enc ev (b, st)))"
proof (cases "bo_at b")
  case OutOpening
  then show ?thesis
    using assms by (cases ev) (simp_all add: out_step.simps out_inv_idle out_inv_done)
next
  case OutIdle
  then show ?thesis
    using assms by (cases ev) (simp_all add: out_step.simps out_inv_recv out_inv_done)
next
  case (OutLength r rest buf)
  then show ?thesis
    using assms out_inv_length [OF assms OutLength, of _ st]
    by (cases ev) (simp_all add: out_step.simps out_inv_done)
next
  case (OutBody r rest)
  then show ?thesis
    using assms out_inv_body [OF assms OutBody, of _ st]
    by (cases ev) (simp_all add: out_step.simps out_inv_done)
next
  case (OutDone fin)
  then show ?thesis using assms by (cases ev) (simp_all add: out_step.simps)
qed

text \<open>The counter grows by the bundles of the responses written in full, and by nothing else.\<close>

definition n_bundles :: "be_bundles_response list \<Rightarrow> u64" where
  "n_bundles rs = of_nat (\<Sum>r\<leftarrow>rs. length (bb_bundles r))"

lemma n_bundles_simps [simp]:
  "n_bundles [] = 0" "n_bundles (rs @ rs') = n_bundles rs + n_bundles rs'"
  "n_bundles [r] = of_nat (length (bb_bundles r))"
  by (simp_all add: n_bundles_def)

lemma out_step_counts:
  "\<exists>new. bo_written (fst (out_step enc ev (b, st))) = bo_written b @ new \<and>
     snd (out_step enc ev (b, st)) = st\<lparr>bundles_sent := bundles_sent st + n_bundles new\<rparr>"
proof -
  have none: "\<exists>new. ws = ws @ new \<and> st = st\<lparr>bundles_sent := bundles_sent st + n_bundles new\<rparr>"
    for ws :: "be_bundles_response list"
    by (rule exI [of _ "[]"]) simp
  have one: "\<exists>new. ws @ [r] = ws @ new \<and> st\<lparr>bundles_sent := bundles_sent st + of_nat (length (bb_bundles r))\<rparr> =
      st\<lparr>bundles_sent := bundles_sent st + n_bundles new\<rparr>" for ws r
    by (rule exI [of _ "[r]"]) simp
  show ?thesis
    by (cases "bo_at b"; cases ev)
      (simp_all only: out_step.simps prod.case out_at.case out_event.case out_recv_def out_wrote_def Let_def
        fst_conv snd_conv bundle_out.simps if_distrib [of fst] if_distrib [of snd] none one split: if_split,
        auto intro: none one)
qed

lemma fold_out_step:
  assumes "out_inv enc b"
  shows "out_inv enc (fst (fold (out_step enc) evs (b, st))) \<and>
    (\<exists>new. bo_written (fst (fold (out_step enc) evs (b, st))) = bo_written b @ new \<and>
       snd (fold (out_step enc) evs (b, st)) = st\<lparr>bundles_sent := bundles_sent st + n_bundles new\<rparr>)"
  using assms
proof (induction evs arbitrary: b st)
  case Nil
  then show ?case by (auto intro: exI [of _ "[]"])
next
  case (Cons ev evs)
  obtain b1 st1 where step: "out_step enc ev (b, st) = (b1, st1)" by force
  then obtain new where new: "bo_written b1 = bo_written b @ new"
      "st1 = st\<lparr>bundles_sent := bundles_sent st + n_bundles new\<rparr>"
    using out_step_counts [of enc ev b st] by auto
  have "out_inv enc b1" using out_inv_step [OF Cons.prems, of ev st] step by simp
  from Cons.IH [OF this, of st1] new show ?case
    by (auto simp: step add.assoc intro: exI [of _ "new @ _"])
qed

lemma read_written:
  assumes "\<And>r. r \<in> set rs \<Longrightarrow> \<exists>b. enc r = Ok b \<and> dec b = Ok r \<and> length b \<le> MAX_BUNDLE_FRAME"
  shows "read_bundle_stream dec (\<lambda>_. False) k (concat (map (frame_of enc) rs) @ partial) st =
    (case read_bundle_stream dec (\<lambda>_. False) (k + length rs) partial (fold count_received rs st) of
       (st', out, why) \<Rightarrow> (st', rs @ out, why))"
  using assms
proof (induction rs arbitrary: k st)
  case Nil
  then show ?case by simp
next
  case (Cons r rs)
  then obtain b where b: "enc r = Ok b" "dec b = Ok r" "length b \<le> MAX_BUNDLE_FRAME" by force
  then show ?case
    using Cons by (simp add: read_frame frame_of_def case_prod_beta)
qed

lemma read_torn:
  assumes "partial @ rest = bundle_frame buf" and "rest \<noteq> []" and "length buf \<le> MAX_BUNDLE_FRAME"
  shows "read_bundle_stream dec (\<lambda>_. False) k partial st = (st, [], EndRead)"
proof (cases "length partial < 4")
  case True
  then show ?thesis by (subst read_bundle_stream.simps) (simp add: read_exact_def)
next
  case False
  have "take 4 partial = take 4 (partial @ rest)" using False by simp
  then have len: "take 4 partial = u32_to_le_bytes (of_nat (length buf))"
    by (simp add: assms(1) bundle_frame_def)
  have "length partial + length rest = 4 + length buf"
    using arg_cong [OF assms(1), of length] by (simp add: bundle_frame_def)
  then have "\<not> length buf \<le> length partial - 4" using False assms(2) by (cases rest) auto
  then show ?thesis
    using False assms(3) MAX_less [OF assms(3)]
    by (subst read_bundle_stream.simps) (simp add: read_exact_def len Let_def)
qed

text \<open>
  Reading back a stream that the writer left in any state: the codec needs to read back what it writes, and
  a frame to be at most 4 MiB.
\<close>

definition codec_ok :: "'e encoder \<Rightarrow> 'e decoder \<Rightarrow> be_bundles_response \<Rightarrow> bool" where
  "codec_ok enc dec r = (case enc r of Ok buf \<Rightarrow> dec buf = Ok r \<and> length buf \<le> MAX_BUNDLE_FRAME | Err _ \<Rightarrow> True)"

lemma torn_strict_prefix: "torn enc partial rest lost \<Longrightarrow> \<exists>r. lost = [r] \<and> strict_prefix partial (frame_of enc r)"
  by (auto simp: torn_def frame_of_def strict_prefix_def intro: prefixI [OF sym])

lemma out_inv_lost:
  assumes "out_inv enc b"
  shows "\<exists>lost partial. filter (encodable enc) (bo_taken b) = bo_written b @ lost \<and>
    bo_stream b = concat (map (frame_of enc) (bo_written b)) @ partial \<and> length lost \<le> 1 \<and>
    (lost = [] \<and> partial = [] \<or> (\<exists>r. lost = [r] \<and> strict_prefix partial (frame_of enc r)))"
proof -
  obtain partial lost where "bo_stream b = concat (map (frame_of enc) (bo_written b)) @ partial"
    and "filter (encodable enc) (bo_taken b) = bo_written b @ lost"
    and fl: "flight enc (bo_at b) partial lost"
    using assms by (auto simp: out_inv_def)
  moreover have "(partial = [] \<and> lost = []) \<or> (\<exists>rest. torn enc partial rest lost)"
    using fl by (cases "bo_at b") auto
  then have "lost = [] \<and> partial = [] \<or> (\<exists>r. lost = [r] \<and> strict_prefix partial (frame_of enc r))"
    using torn_strict_prefix by blast
  ultimately show ?thesis by (intro exI [of _ lost] exI [of _ partial]) auto
qed

lemma read_out_stream:
  assumes "out_inv enc b" and "\<And>r. r \<in> set (bo_taken b) \<Longrightarrow> codec_ok enc dec r"
  obtains lost where "filter (encodable enc) (bo_taken b) = bo_written b @ lost" and "length lost \<le> 1"
    and "read_bundle_stream dec (\<lambda>_. False) 0 (bo_stream b) st =
      (fold count_received (bo_written b) st, bo_written b, EndRead)"
proof -
  obtain partial lost where stream: "bo_stream b = concat (map (frame_of enc) (bo_written b)) @ partial"
    and taken: "filter (encodable enc) (bo_taken b) = bo_written b @ lost"
    and fl: "flight enc (bo_at b) partial lost"
    using assms(1) by (auto simp: out_inv_def)
  have ok: "\<exists>buf. enc r = Ok buf \<and> dec buf = Ok r \<and> length buf \<le> MAX_BUNDLE_FRAME"
    if "r \<in> set (bo_written b @ lost)" for r
    using that assms(2) [of r] unfolding taken [symmetric]
    by (auto simp: encodable_def codec_ok_def split: result.splits)
  have "(partial = [] \<and> lost = []) \<or> (\<exists>rest. torn enc partial rest lost)"
    using fl by (cases "bo_at b") auto
  then have "length lost \<le> 1 \<and>
      (\<forall>k st. read_bundle_stream dec (\<lambda>_. False) k partial st = (st, [], EndRead))"
  proof (elim disjE exE)
    fix rest assume "torn enc partial rest lost"
    then obtain r buf where "rest \<noteq> []" "lost = [r]" "enc r = Ok buf" "partial @ rest = bundle_frame buf"
      by (auto simp: torn_def)
    then show ?thesis using ok [of r] read_torn [of partial rest buf] by auto
  qed (simp add: read_nothing)
  then show thesis
    using read_written [of "bo_written b" enc dec 0 partial st] ok
    by (intro that [OF taken]) (auto simp: stream)
qed

lemma bundles_received_fold:
  "bundles_received (fold count_received rs st) = bundles_received st + n_bundles rs"
  by (induction rs arbitrary: st) (simp_all add: count_received_def n_bundles_def add.assoc)


text \<open>
  The witness: two responses are taken, the write of the first is cut into pieces and completes, the
  connection is lost in the middle of the second.
\<close>

definition out_events_example :: "out_event list" where
  "out_events_example = [OeOpened, OeRecv (resp_example 2), OeWrite 3, OeWrite 9, OeLagged 3, OeWrite 2,
     OeRecv (resp_example 1), OeWrite 4, OeWriteErr]"

lemma codec_example: "codec_ok enc_example dec_example (resp_example n) \<longleftrightarrow> n \<le> MAX_BUNDLE_FRAME"
  by (simp add: codec_ok_def enc_example_def dec_example_def resp_example_def map_replicate_const)

lemma out_events_example_run:
  "mirror_bundles_out enc_example out_events_example stats_default =
     (\<lparr>bo_at = OutDone False, bo_stream = bundle_frame [1, 1] @ [1, 0, 0, 0],
       bo_taken = [resp_example 2, resp_example 1], bo_written = [resp_example 2]\<rparr>,
      stats_default\<lparr>bundles_sent := 2\<rparr>)"
  by code_simp


end
