(* ===== verification/Cert_Pin.thy ===== *)
theory Cert_Pin
  imports Prelude
begin

text \<open>
  Certificate pinning of \<open>src/proxy/mirror.rs\<close>: \<open>parse_cert_pin\<close>, \<open>hex_val\<close>, \<open>hex_encode\<close> and the
  server certificate check of \<open>PinnedServerCertVerifier\<close>. A Rust \<open>&str\<close> is its UTF-8 bytes. The hash
  function of OpenSSL is the parameter \<open>sha256\<close>.
\<close>

unbundle bit_operations_syntax

datatype pin_error = BadLength nat | InvalidHex u8

fun hex_val :: "u8 \<Rightarrow> (u8, pin_error) result" where
  "hex_val c =
     (if 48 \<le> c \<and> c \<le> 57 then Ok (c - 48)
      else if 97 \<le> c \<and> c \<le> 102 then Ok (c - 97 + 10)
      else if 65 \<le> c \<and> c \<le> 70 then Ok (c - 65 + 10)
      else Err (InvalidHex c))"

declare hex_val.simps [simp del]

definition is_ascii_whitespace :: "u8 \<Rightarrow> bool" where
  "is_ascii_whitespace b \<longleftrightarrow> b = 9 \<or> b = 10 \<or> b = 12 \<or> b = 13 \<or> b = 32"

definition pin_clean :: "bytes \<Rightarrow> bytes" where
  "pin_clean s = filter (\<lambda>b. \<not> is_ascii_whitespace b \<and> b \<noteq> 58) s"

fun pin_loop :: "bytes \<Rightarrow> nat list \<Rightarrow> (bytes, pin_error) result" where
  "pin_loop cleaned [] = Ok []"
| "pin_loop cleaned (i # is) =
     and_then (hex_val (cleaned ! (i * 2))) (\<lambda>hi.
     and_then (hex_val (cleaned ! (i * 2 + 1))) (\<lambda>lo.
     and_then (pin_loop cleaned is) (\<lambda>rest.
     Ok ((push_bit 4 hi OR lo) # rest))))"

definition parse_cert_pin :: "bytes \<Rightarrow> (bytes, pin_error) result" where
  "parse_cert_pin s =
     (let cleaned = pin_clean s
      in if length cleaned \<noteq> 64 then Err (BadLength (length cleaned))
         else pin_loop cleaned [0..<32])"

definition hex_digit :: "u8 \<Rightarrow> u8" where
  "hex_digit n = (if n < 10 then 48 + n else 87 + n)"

definition hex_encode :: "bytes \<Rightarrow> bytes" where
  "hex_encode bs = concat (map (\<lambda>b. [hex_digit (drop_bit 4 b), hex_digit (b AND 15)]) bs)"

datatype verify_error = FingerprintMismatch bytes bytes

definition verify_server_cert ::
  "(bytes \<Rightarrow> bytes) \<Rightarrow> bytes \<Rightarrow> bytes \<Rightarrow> (unit, verify_error) result" where
  "verify_server_cert sha256 pinned_sha256 end_entity =
     (let presented = sha256 end_entity
      in if presented = pinned_sha256 then Ok ()
         else Err (FingerprintMismatch (hex_encode pinned_sha256) (hex_encode presented)))"

section \<open>Nibbles and digits\<close>

text \<open>\<open>to_lower\<close> is \<open>u8::to_ascii_lowercase\<close>; \<open>is_hex\<close> is the set of characters \<open>hex_val\<close> accepts.\<close>

definition to_lower :: "u8 \<Rightarrow> u8" where
  "to_lower c = (if 65 \<le> c \<and> c \<le> 90 then c + 32 else c)"

definition is_hex :: "u8 \<Rightarrow> bool" where
  "is_hex c \<longleftrightarrow> 48 \<le> c \<and> c \<le> 57 \<or> 97 \<le> c \<and> c \<le> 102 \<or> 65 \<le> c \<and> c \<le> 70"

lemma and_15: "(b :: u8) AND 15 = take_bit 4 b"
  by (simp add: take_bit_eq_mask mask_numeral)

lemma nibble_take_bit: "v < (16 :: u8) \<Longrightarrow> take_bit 4 v = v"
  by (simp add: word_unat_eq_iff unsigned_take_bit_eq word_less_nat_alt take_bit_nat_eq_self)

lemma nibble_high_bits: "v < (16 :: u8) \<Longrightarrow> bit v n \<Longrightarrow> n < 4"
  by (metis nibble_take_bit bit_take_bit_iff)

lemma nibbles_byte [wire]: "push_bit 4 (drop_bit 4 b) OR (b AND 15) = (b :: u8)"
  by (rule bit_eqI) (auto simp: and_15 bit_simps possible_bit_def)

lemma high_nibble [wire]: "hi < 16 \<Longrightarrow> lo < 16 \<Longrightarrow> drop_bit 4 (push_bit 4 hi OR lo) = (hi :: u8)"
  by (rule bit_eqI) (auto simp: bit_simps possible_bit_def dest: nibble_high_bits)

lemma low_nibble [wire]: "lo < 16 \<Longrightarrow> (push_bit 4 hi OR lo) AND 15 = (lo :: u8)"
  by (rule bit_eqI) (auto simp: and_15 bit_simps possible_bit_def dest: nibble_high_bits)

lemma high_nibble_less [wire]: "drop_bit 4 b < (16 :: u8)"
proof -
  have "unat b div 16 < 16" using unat_u8_less [of b] by linarith
  then show ?thesis by (simp add: word_less_nat_alt drop_bit_eq_div unat_div)
qed

lemma low_nibble_less [wire]: "b AND 15 < (16 :: u8)"
  by (rule le_less_trans [OF word_and_le1]) simp

lemma hex_val_less: "hex_val c = Ok v \<Longrightarrow> v < 16"
  by (simp add: hex_val.simps split: if_splits; unat_arith)

lemma hex_digit_hex_val: "hex_val c = Ok v \<Longrightarrow> hex_digit v = to_lower c"
  by (auto simp: hex_val.simps hex_digit_def to_lower_def split: if_splits; unat_arith)

lemma nibble_cases:
  assumes "v < (16 :: u8)"
  shows "v \<in> set [0, 1, 2, 3, 4, 5, 6, 7, 8, 9, 10, 11, 12, 13, 14, 15]"
proof -
  have "unat v < 16" using assms by (simp add: word_less_nat_alt)
  then have "unat v \<in> set [0..<16]" by simp
  then have "(of_nat (unat v) :: u8) \<in> set (map of_nat [0..<16])" unfolding set_map by (rule imageI)
  also have "map of_nat [0..<16] = ([0, 1, 2, 3, 4, 5, 6, 7, 8, 9, 10, 11, 12, 13, 14, 15] :: u8 list)"
    by code_simp
  finally show ?thesis by simp
qed

lemma nibbles_all:
  "list_all P ([0, 1, 2, 3, 4, 5, 6, 7, 8, 9, 10, 11, 12, 13, 14, 15] :: u8 list) \<Longrightarrow> v < 16 \<Longrightarrow> P v"
  unfolding list_all_iff using nibble_cases by blast

lemma hex_val_hex_digit [wire]: "v < 16 \<Longrightarrow> hex_val (hex_digit v) = Ok v"
  by (rule nibbles_all [of "\<lambda>v. hex_val (hex_digit v) = Ok v"])
    (simp_all add: hex_val.simps hex_digit_def)

lemma hex_val_is_hex: "(\<exists>v. hex_val c = Ok v) \<longleftrightarrow> is_hex c"
  by (auto simp: hex_val.simps is_hex_def)

lemma hex_val_Err: "hex_val c = Err e \<longleftrightarrow> \<not> is_hex c \<and> e = InvalidHex c"
  by (auto simp: hex_val.simps is_hex_def)

section \<open>The digit loop\<close>

text \<open>The simplifier must not unroll \<open>[0..<32]\<close>.\<close>

declare upt_rec_numeral [simp del]

lemma pin_loop_shift: "pin_loop (x # y # cs) (map Suc is) = pin_loop cs is"
  by (induction "is") simp_all

lemma upt_Suc_shift: "[0..<Suc n] = 0 # map Suc [0..<n]"
  by (simp add: map_Suc_upt upt_conv_Cons)

lemma pin_loop_Cons2:
  "pin_loop (x # y # cs) [0..<Suc n] =
   and_then (hex_val x) (\<lambda>hi. and_then (hex_val y) (\<lambda>lo.
     and_then (pin_loop cs [0..<n]) (\<lambda>rest. Ok ((push_bit 4 hi OR lo) # rest))))"
  unfolding upt_Suc_shift by (simp add: pin_loop_shift)

lemma pin_loop_hex_encode: "pin_loop (hex_encode bs) [0..<length bs] = Ok bs"
proof (induction bs)
  case Nil
  then show ?case by simp
next
  case (Cons b bs)
  have "hex_encode (b # bs) = hex_digit (drop_bit 4 b) # hex_digit (b AND 15) # hex_encode bs"
    by (simp add: hex_encode_def)
  then show ?case
    using Cons.IH by (simp only: length_Cons pin_loop_Cons2) (simp add: wire)
qed

lemma double_length_cases:
  assumes "length cs = 2 * Suc n"
  obtains x y cs' where "cs = x # y # cs'" and "length cs' = 2 * n"
  using assms by (cases cs; cases "tl cs") auto

lemma pin_loop_Ok:
  "length cs = 2 * n \<Longrightarrow> pin_loop cs [0..<n] = Ok bs \<Longrightarrow>
   length bs = n \<and> hex_encode bs = map to_lower cs"
proof (induction n arbitrary: cs bs)
  case 0
  then show ?case by (simp add: hex_encode_def)
next
  case (Suc n)
  from Suc.prems(1) obtain x y cs' where cs: "cs = x # y # cs'" and len: "length cs' = 2 * n"
    by (rule double_length_cases)
  from Suc.prems(2) obtain hi lo rest where
    hi: "hex_val x = Ok hi" and lo: "hex_val y = Ok lo" and
    rest: "pin_loop cs' [0..<n] = Ok rest" and bs: "bs = (push_bit 4 hi OR lo) # rest"
    unfolding cs pin_loop_Cons2 by auto
  have "length rest = n" and "hex_encode rest = map to_lower cs'"
    using Suc.IH [OF len rest] by simp_all
  moreover have "hex_encode bs = hex_digit hi # hex_digit lo # hex_encode rest"
    unfolding bs hex_encode_def
    by (simp only: list.map concat.simps append_Cons append_Nil
        high_nibble [OF hex_val_less [OF hi] hex_val_less [OF lo]]
        low_nibble [OF hex_val_less [OF lo]])
  ultimately show ?case
    using hex_digit_hex_val [OF hi] hex_digit_hex_val [OF lo] by (simp add: cs bs)
qed

lemma hex_val_cases:
  "(if is_hex c then \<exists>v. hex_val c = Ok v else hex_val c = Err (InvalidHex c))"
  using hex_val_is_hex hex_val_Err by auto

lemma pin_loop_find:
  "length cs = 2 * n \<Longrightarrow>
   (case find (\<lambda>c. \<not> is_hex c) cs of Some c \<Rightarrow> pin_loop cs [0..<n] = Err (InvalidHex c)
    | None \<Rightarrow> \<exists>bs. pin_loop cs [0..<n] = Ok bs)"
proof (induction n arbitrary: cs)
  case 0
  then show ?case by simp
next
  case (Suc n)
  from Suc.prems obtain x y cs' where cs: "cs = x # y # cs'" and len: "length cs' = 2 * n"
    by (rule double_length_cases)
  show ?case
    using Suc.IH [OF len] hex_val_cases [of x] hex_val_cases [of y]
    unfolding cs pin_loop_Cons2 by (auto split: option.splits if_splits)
qed

lemma length_hex_encode [simp]: "length (hex_encode bs) = 2 * length bs"
  by (induction bs) (simp_all add: hex_encode_def)

lemma hex_digit_clean: "v < 16 \<Longrightarrow> \<not> is_ascii_whitespace (hex_digit v) \<and> hex_digit v \<noteq> 58"
  by (rule nibbles_all [of "\<lambda>v. \<not> is_ascii_whitespace (hex_digit v) \<and> hex_digit v \<noteq> 58"])
    (simp_all add: is_ascii_whitespace_def hex_digit_def)

lemma pin_clean_hex_encode: "pin_clean (hex_encode bs) = hex_encode bs"
  unfolding pin_clean_def
proof (rule filter_True, rule ballI)
  fix c assume "c \<in> set (hex_encode bs)"
  then obtain v where "v < 16" and "c = hex_digit v"
    using high_nibble_less low_nibble_less unfolding hex_encode_def by fastforce
  then show "\<not> is_ascii_whitespace c \<and> c \<noteq> 58" using hex_digit_clean by simp
qed

lemma hex_encode_inject: "hex_encode a = hex_encode b \<longleftrightarrow> a = b"
proof
  assume eq: "hex_encode a = hex_encode b"
  from arg_cong [OF this, of length] have "length a = length b" by simp
  with eq show "a = b" by (metis pin_loop_hex_encode result.inject(1))
qed simp

lemma hex_encode_replicate: "hex_encode (replicate n 170) = replicate (2 * n) 97"
proof (induction n)
  case 0
  then show ?case by (simp add: hex_encode_def)
next
  case (Suc n)
  have "hex_encode (replicate (Suc n) 170) =
      hex_digit (drop_bit 4 170) # hex_digit (170 AND 15) # hex_encode (replicate n 170)"
    by (simp add: hex_encode_def)
  moreover have "hex_digit (drop_bit 4 170) = 97" and "hex_digit (170 AND 15) = 97"
    by (simp_all add: hex_digit_def)
  ultimately show ?case using Suc.IH by simp
qed

lemma parse_cert_pin_hex: "parse_cert_pin s = Ok pin \<Longrightarrow> hex_encode pin = map to_lower (pin_clean s)"
  using pin_loop_Ok [of "pin_clean s" 32 pin] by (auto simp: parse_cert_pin_def Let_def split: if_splits)

lemma verify_server_cert_Ok: "verify_server_cert sha256 pin cert = Ok () \<longleftrightarrow> sha256 cert = pin"
  by (simp add: verify_server_cert_def Let_def)

section \<open>Properties\<close>

text \<open>
  Printing and parsing a fingerprint are inverse: the hexadecimal form of any 32-byte digest,
  with any separators the parser ignores put between its digits, parses back to that digest.
\<close>

theorem parse_cert_pin_roundtrip:
  assumes "length pin = 32" and "pin_clean s = hex_encode pin"
  shows "parse_cert_pin s = Ok pin"
  using assms pin_loop_hex_encode [of pin] by (simp add: parse_cert_pin_def)

theorem parse_cert_pin_roundtrip_witness:
  "parse_cert_pin (58 # hex_encode (replicate 32 171) @ [32]) = Ok (replicate 32 171)"
proof (rule parse_cert_pin_roundtrip)
  have "pin_clean (58 # hex_encode (replicate 32 171) @ [32]) =
      pin_clean (hex_encode (replicate 32 171))"
    by (simp add: pin_clean_def is_ascii_whitespace_def)
  then show "pin_clean (58 # hex_encode (replicate 32 171) @ [32]) = hex_encode (replicate 32 171)"
    by (simp add: pin_clean_hex_encode)
qed simp

text \<open>
  C33: \<open>parse_cert_pin\<close> on every text. A text that does not have 64 characters besides white space and
  colons is refused for its length; otherwise the first character that is not a hexadecimal digit is
  reported; otherwise the digest is the 32 bytes whose hexadecimal form is the text in lower case.
\<close>

theorem parse_cert_pin_spec:
  "(length (pin_clean s) \<noteq> 64 \<longrightarrow> parse_cert_pin s = Err (BadLength (length (pin_clean s)))) \<and>
   (length (pin_clean s) = 64 \<longrightarrow>
     (case find (\<lambda>c. \<not> is_hex c) (pin_clean s) of
        Some c \<Rightarrow> parse_cert_pin s = Err (InvalidHex c)
      | None \<Rightarrow> \<exists>pin. parse_cert_pin s = Ok pin \<and> length pin = 32 \<and>
          hex_encode pin = map to_lower (pin_clean s)))"
proof (intro conjI impI)
  show "parse_cert_pin s = Err (BadLength (length (pin_clean s)))" if "length (pin_clean s) \<noteq> 64"
    using that by (simp add: parse_cert_pin_def)
next
  assume "length (pin_clean s) = 64"
  then have len: "length (pin_clean s) = 2 * 32"
    and eq: "parse_cert_pin s = pin_loop (pin_clean s) [0..<32]"
    by (simp_all add: parse_cert_pin_def)
  show "case find (\<lambda>c. \<not> is_hex c) (pin_clean s) of
        Some c \<Rightarrow> parse_cert_pin s = Err (InvalidHex c)
      | None \<Rightarrow> \<exists>pin. parse_cert_pin s = Ok pin \<and> length pin = 32 \<and>
          hex_encode pin = map to_lower (pin_clean s)"
    unfolding eq using pin_loop_find [OF len] pin_loop_Ok [OF len]
    by (auto split: option.splits)
qed

theorem parse_cert_pin_spec_witness:
  "parse_cert_pin [58, 32] = Err (BadLength 0)"
  using parse_cert_pin_spec [of "[58, 32]"]
  by (simp add: pin_clean_def is_ascii_whitespace_def)

text \<open>
  With the pin parsed from the command line, the verifier accepts a server certificate exactly
  when the lower-case hexadecimal SHA-256 of the certificate is the configured text without its
  separators, up to the case of the digits; otherwise the error names both fingerprints.
\<close>

theorem verify_server_cert_pinned:
  assumes "parse_cert_pin s = Ok pin"
  shows "verify_server_cert sha256 pin cert =
    (if hex_encode (sha256 cert) = map to_lower (pin_clean s) then Ok ()
     else Err (FingerprintMismatch (map to_lower (pin_clean s)) (hex_encode (sha256 cert))))"
  by (simp add: verify_server_cert_def Let_def hex_encode_inject flip: parse_cert_pin_hex [OF assms])

theorem verify_server_cert_pinned_witness:
  "verify_server_cert (\<lambda>_. replicate 32 170) (replicate 32 170) [1, 2] = Ok ()"
proof -
  have "pin_clean (replicate 64 97) = replicate 64 97"
    by (simp add: pin_clean_def is_ascii_whitespace_def)
  moreover have "hex_encode (replicate 32 170) = replicate 64 97"
    using hex_encode_replicate [of 32] by simp
  moreover from this have "pin_loop (replicate 64 97) [0..<32] = Ok (replicate 32 170)"
    using pin_loop_hex_encode [of "replicate 32 170"] by simp
  ultimately have "parse_cert_pin (replicate 64 97) = Ok (replicate 32 170)"
    by (simp add: parse_cert_pin_def)
  from verify_server_cert_pinned [OF this, of "\<lambda>_. replicate 32 170" "[1, 2]"]
  show ?thesis
    using \<open>pin_clean (replicate 64 97) = replicate 64 97\<close>
      \<open>hex_encode (replicate 32 170) = replicate 64 97\<close> by (simp add: to_lower_def)
qed

end
