(* ===== verification/Connection.thy ===== *)
theory Connection
  imports Bundle_Stream Cert_Pin
begin

text \<open>
  The connection of the mirror to the Inertia server, from \<open>src/proxy/mirror.rs\<close>: how the QUIC endpoint is
  set up (\<open>client_endpoint\<close>), how it connects, how the four tasks of a connection are served by one
  \<open>select!\<close> (\<open>serve_connection\<close>) and the reconnect loop (\<open>run\<close>).

  The libraries rustls and quinn are the record \<open>quic\<close>: each call is a function, and those that reach the
  network read and update a world of type \<open>'w\<close>. A connection is a value of type \<open>'c\<close>, an accepted stream
  one of type \<open>'r\<close>.
\<close>

section \<open>The endpoint\<close>

definition KEEP_ALIVE :: duration where "KEEP_ALIVE = from_secs 5"
definition IDLE_TIMEOUT :: duration where "IDLE_TIMEOUT = from_secs 30"
definition DATAGRAM_SEND_BUFFER :: nat where "DATAGRAM_SEND_BUFFER = 4 * 1024 * 1024"
definition ALPN :: bytes where "ALPN = map of_char ''inertia-mirror''"
definition SERVER_NAME :: string where "SERVER_NAME = ''inertia-relayer''"

text \<open>
  The verifier checks the fingerprint itself and leaves the signatures of the handshake to rustls, with the
  algorithms of its provider (\<open>'al\<close>); \<open>tls\<close> has the functions of rustls.
\<close>

record digitally_signed =
  dss_scheme :: nat
  dss_signature :: bytes

record 'al tls =
  tl_verify_tls12_signature :: "bytes \<Rightarrow> bytes \<Rightarrow> digitally_signed \<Rightarrow> 'al \<Rightarrow> (unit, string) result"
  tl_verify_tls13_signature :: "bytes \<Rightarrow> bytes \<Rightarrow> digitally_signed \<Rightarrow> 'al \<Rightarrow> (unit, string) result"
  tl_supported_schemes :: "'al \<Rightarrow> nat list"

record 'al pinned_verifier =
  pv_provider :: 'al
  pv_pinned_sha256 :: bytes

definition verify_tls12_signature ::
  "'al tls \<Rightarrow> 'al pinned_verifier \<Rightarrow> bytes \<Rightarrow> bytes \<Rightarrow> digitally_signed \<Rightarrow> (unit, string) result" where
  "verify_tls12_signature tls v message cert dss = tl_verify_tls12_signature tls message cert dss (pv_provider v)"

definition verify_tls13_signature ::
  "'al tls \<Rightarrow> 'al pinned_verifier \<Rightarrow> bytes \<Rightarrow> bytes \<Rightarrow> digitally_signed \<Rightarrow> (unit, string) result" where
  "verify_tls13_signature tls v message cert dss = tl_verify_tls13_signature tls message cert dss (pv_provider v)"

definition supported_verify_schemes :: "'al tls \<Rightarrow> 'al pinned_verifier \<Rightarrow> nat list" where
  "supported_verify_schemes tls v = tl_supported_schemes tls (pv_provider v)"

record 'al crypto_config =
  cc_verifier :: "'al pinned_verifier"
  cc_alpn_protocols :: "bytes list"

record transport_config =
  tr_keep_alive_interval :: "duration option"
  tr_max_idle_timeout :: "duration option"
  tr_datagram_send_buffer_size :: nat

record 'al client_config =
  cf_crypto :: "'al crypto_config"
  cf_transport :: transport_config

record ('so, 'al) endpoint =
  ep_socket :: 'so
  ep_default_client_config :: "'al client_config"

text \<open>
  The calls, in the order in which the code makes them: the protocol versions of rustls,
  \<open>QuicClientConfig::try_from\<close>, \<open>IdleTimeout::try_from\<close>, \<open>Endpoint::client\<close>, \<open>Endpoint::connect\<close>, awaiting the
  handshake, \<open>Endpoint::close\<close>; \<open>qu_provider\<close> is the default provider of rustls. \<open>qu_peer_cert\<close> is the end-entity
  certificate the peer of a connection showed, \<open>qu_signed\<close> the part of the handshake it signed and its signature.
\<close>

record ('so, 'k, 'al, 'c, 'w) quic =
  qu_provider :: 'al
  qu_protocol_versions :: "(unit, string) result"
  qu_quic_config :: "'al crypto_config \<Rightarrow> (unit, string) result"
  qu_idle_timeout :: "duration \<Rightarrow> (unit, string) result"
  qu_bind :: "socket_addr \<Rightarrow> 'w \<Rightarrow> ('so, string) result \<times> 'w"
  qu_connect :: "('so, 'al) endpoint \<Rightarrow> socket_addr \<Rightarrow> string \<Rightarrow> 'w \<Rightarrow> ('k, string) result \<times> 'w"
  qu_handshake :: "'k \<Rightarrow> 'w \<Rightarrow> ('c, string) result \<times> 'w"
  qu_close :: "('so, 'al) endpoint \<Rightarrow> 'w \<Rightarrow> 'w"
  qu_peer_cert :: "'c \<Rightarrow> bytes"
  qu_signed :: "'c \<Rightarrow> bytes \<times> digitally_signed"

definition client_config_of :: "('so, 'k, 'al, 'c, 'w) quic \<Rightarrow> bytes \<Rightarrow> ('al client_config, string) result" where
  "client_config_of q cert_pin =
     and_then (qu_protocol_versions q) (\<lambda>_.
     let crypto = \<lparr>cc_verifier = \<lparr>pv_provider = qu_provider q, pv_pinned_sha256 = cert_pin\<rparr>, cc_alpn_protocols = [ALPN]\<rparr>
     in and_then (qu_quic_config q crypto) (\<lambda>_.
        and_then (qu_idle_timeout q IDLE_TIMEOUT) (\<lambda>_.
        Ok \<lparr>cf_crypto = crypto,
          cf_transport = \<lparr>tr_keep_alive_interval = Some KEEP_ALIVE, tr_max_idle_timeout = Some IDLE_TIMEOUT,
            tr_datagram_send_buffer_size = DATAGRAM_SEND_BUFFER\<rparr>\<rparr>)))"

definition client_endpoint ::
  "('so, 'k, 'al, 'c, 'w) quic \<Rightarrow> 'c mirror \<Rightarrow> 'w \<Rightarrow> (('so, 'al) endpoint, string) result \<times> 'w" where
  "client_endpoint q m w =
     (case client_config_of q (mi_cert_pin m) of
        Err e \<Rightarrow> (Err e, w)
      | Ok config \<Rightarrow>
          (case qu_bind q (mi_proxy_server m) w of
             (Err e, w') \<Rightarrow> (Err e, w')
           | (Ok socket, w') \<Rightarrow> (Ok \<lparr>ep_socket = socket, ep_default_client_config = config\<rparr>, w')))"

definition connect ::
  "('so, 'k, 'al, 'c, 'w) quic \<Rightarrow> ('so, 'al) endpoint \<Rightarrow> 'c mirror \<Rightarrow> 'w \<Rightarrow> ('c, string) result \<times> 'w" where
  "connect q ep m w =
     (case qu_connect q ep (mi_inertia_server m) SERVER_NAME w of
        (Err e, w') \<Rightarrow> (Err e, w')
      | (Ok connecting, w') \<Rightarrow> qu_handshake q connecting w')"

section \<open>Other tasks\<close>

text \<open>
  What the other tasks of the process do to the state they share with the connection: the packet tasks
  send and sweep, the stream readers count, the reporter swaps counters out.
\<close>

datatype mirror_op = MoSend u8 bytes | MoSweep "signature \<Rightarrow> instant" | MoCount stat_event | MoSwap counter

fun mirror_op_step :: "('c, 'w) net \<Rightarrow> mirror_op \<Rightarrow> 'c mirror \<times> 'w \<Rightarrow> 'c mirror \<times> 'w" where
  "mirror_op_step net (MoSend source data) mw = mirror_send net source data mw"
| "mirror_op_step net (MoSweep clk) (m, w) = (m\<lparr>mi_filter_set := fs_sweep clk (mi_filter_set m)\<rparr>, w)"
| "mirror_op_step net (MoCount ev) (m, w) = (m\<lparr>mi_stats := count_event ev (mi_stats m)\<rparr>, w)"
| "mirror_op_step net (MoSwap c) (m, w) = (m\<lparr>mi_stats := counter_set c 0 (mi_stats m)\<rparr>, w)"

section \<open>Serving a connection\<close>

text \<open>
  The state of \<open>serve_connection\<close>: the shared mirror and the world, the local variable of the control task, the
  bundle writer, and the streams for which a reader was spawned. An event is the outcome of one poll
  of one of the four tasks, or an operation of another task in between.
\<close>

record ('c, 'w, 'r) serving =
  cn_mirror :: "'c mirror"
  cn_world :: 'w
  cn_last :: "bytes option"
  cn_out :: bundle_out
  cn_spawned :: "'r list"

definition conn_start :: "'c mirror \<Rightarrow> 'w \<Rightarrow> ('c, 'w, 'r) serving" where
  "conn_start m w = \<lparr>cn_mirror = m, cn_world = w, cn_last = None, cn_out = bundle_out_init, cn_spawned = []\<rparr>"

datatype 'r serve_event =
    SeBundles "'r accepted" | SeFilters filter_poll | SeOut out_event | SeControl control_poll
  | SeOther mirror_op

fun out_returned :: "out_at \<Rightarrow> bool" where
  "out_returned (OutDone fin) = True"
| "out_returned _ = False"

definition set_shared :: "'c mirror \<times> 'w \<Rightarrow> ('c, 'w, 'r) serving \<Rightarrow> ('c, 'w, 'r) serving" where
  "set_shared mw s = s\<lparr>cn_mirror := fst mw, cn_world := snd mw\<rparr>"

text \<open>One event: the new state, and whether the task that was polled has returned.\<close>

fun conn_step :: "('c, 'w) net \<Rightarrow> 'e encoder \<Rightarrow> 'r serve_event \<Rightarrow> ('c, 'w, 'r) serving \<Rightarrow>
    ('c, 'w, 'r) serving \<times> bool" where
  "conn_step net enc (SeBundles (AcOk recv)) s = (s\<lparr>cn_spawned := cn_spawned s @ [recv]\<rparr>, False)"
| "conn_step net enc (SeBundles AcShutdown) s = (s, True)"
| "conn_step net enc (SeBundles (AcErr e)) s = (s, True)"
| "conn_step net enc (SeFilters (FpDatagram now bs)) s = (s\<lparr>cn_mirror := ingest_filter now bs (cn_mirror s)\<rparr>, False)"
| "conn_step net enc (SeFilters FpShutdown) s = (s, True)"
| "conn_step net enc (SeFilters FpError) s = (s, True)"
| "conn_step net enc (SeOut ev) s =
     (case out_step enc ev (cn_out s, mi_stats (cn_mirror s)) of (b, st) \<Rightarrow>
       (s\<lparr>cn_out := b, cn_mirror := (cn_mirror s)\<lparr>mi_stats := st\<rparr>\<rparr>, out_returned (bo_at b)))"
| "conn_step net enc (SeControl (CpTick None)) s = (s, False)"
| "conn_step net enc (SeControl (CpTick (Some identity))) s =
     (set_shared (mirror_send net SOURCE_CONTROL identity (cn_mirror s, cn_world s)) (s\<lparr>cn_last := Some identity\<rparr>),
      False)"
| "conn_step net enc (SeControl CpShutdown) s = (s, True)"
| "conn_step net enc (SeOther op) s = (set_shared (mirror_op_step net op (cn_mirror s, cn_world s)) s, False)"

text \<open>The select: the first task that returns ends it, and the other three are dropped where they stand.\<close>

fun serve_connection :: "('c, 'w) net \<Rightarrow> 'e encoder \<Rightarrow> 'r serve_event list \<Rightarrow> ('c, 'w, 'r) serving \<Rightarrow>
    ('c, 'w, 'r) serving \<times> bool" where
  "serve_connection net enc [] s = (s, False)"
| "serve_connection net enc (ev # evs) s =
     (case conn_step net enc ev s of
        (s', True) \<Rightarrow> (s', True)
      | (s', False) \<Rightarrow> serve_connection net enc evs s')"

section \<open>The reconnect loop\<close>

definition BACKOFF_INITIAL :: duration where "BACKOFF_INITIAL = from_millis 250"
definition BACKOFF_MAX :: duration where "BACKOFF_MAX = from_secs 5"

text \<open>
  One round of the loop of \<open>run\<close>: the shutdown flag at the top, what other tasks do while the handshake is
  under way, the events of the connection if there is one, the shutdown flag before the sleep, and what
  other tasks do during the sleep.
\<close>

record 'r run_round =
  rn_top :: bool
  rn_connecting :: "mirror_op list"
  rn_events :: "'r serve_event list"
  rn_mid :: bool
  rn_sleeping :: "mirror_op list"

text \<open>
  The state of the loop. The last four fields are its history: the pauses it made, whether each attempt
  connected, and for the connections the bundle writers and the streams read.
\<close>

record ('c, 'w, 'r) running =
  ru_mirror :: "'c mirror"
  ru_world :: 'w
  ru_backoff :: duration
  ru_sleeps :: "duration list"
  ru_attempts :: "bool list"
  ru_outs :: "bundle_out list"
  ru_spawned :: "'r list"

text \<open>Where the run stands when the rounds it was given are used up.\<close>

datatype run_phase = RunFailed string | RunServing | RunWaiting | RunEnded

definition run_others :: "('c, 'w) net \<Rightarrow> mirror_op list \<Rightarrow> ('c, 'w, 'r) running \<Rightarrow> ('c, 'w, 'r) running" where
  "run_others net ops s =
     (case fold (mirror_op_step net) ops (ru_mirror s, ru_world s) of (m, w) \<Rightarrow>
       s\<lparr>ru_mirror := m, ru_world := w\<rparr>)"

text \<open>The \<open>match\<close> on the result of \<open>connect\<close>; \<open>False\<close> means that the connection is still being served.\<close>

definition run_round :: "('so, 'k, 'al, 'c, 'w) quic \<Rightarrow> ('c, 'w) net \<Rightarrow> 'e encoder \<Rightarrow> ('so, 'al) endpoint \<Rightarrow>
    'r run_round \<Rightarrow> ('c, 'w, 'r) running \<Rightarrow> ('c, 'w, 'r) running \<times> bool" where
  "run_round q net enc ep r s0 =
     (let s = run_others net (rn_connecting r) s0
      in case connect q ep (ru_mirror s) (ru_world s) of
           (Err e, w) \<Rightarrow> (s\<lparr>ru_world := w, ru_attempts := ru_attempts s @ [False]\<rparr>, True)
         | (Ok conn, w) \<Rightarrow>
             (case serve_connection net enc (rn_events r) (conn_start (mirror_set (Some conn) (ru_mirror s)) w) of
                (c, fin) \<Rightarrow>
                  (s\<lparr>ru_mirror := (if fin then mirror_set None (cn_mirror c) else cn_mirror c),
                     ru_world := cn_world c, ru_backoff := BACKOFF_INITIAL,
                     ru_attempts := ru_attempts s @ [True], ru_outs := ru_outs s @ [cn_out c],
                     ru_spawned := ru_spawned s @ cn_spawned c\<rparr>, fin)))"

definition run_sleep :: "('c, 'w) net \<Rightarrow> 'r run_round \<Rightarrow> ('c, 'w, 'r) running \<Rightarrow> ('c, 'w, 'r) running" where
  "run_sleep net r s =
     run_others net (rn_sleeping r)
       (s\<lparr>ru_sleeps := ru_sleeps s @ [ru_backoff s], ru_backoff := min (ru_backoff s * 2) BACKOFF_MAX\<rparr>)"

fun run_loop :: "('so, 'k, 'al, 'c, 'w) quic \<Rightarrow> ('c, 'w) net \<Rightarrow> 'e encoder \<Rightarrow> ('so, 'al) endpoint \<Rightarrow>
    'r run_round list \<Rightarrow> ('c, 'w, 'r) running \<Rightarrow> ('c, 'w, 'r) running \<times> run_phase" where
  "run_loop q net enc ep [] s = (s, RunWaiting)"
| "run_loop q net enc ep (r # rs) s =
     (if rn_top r then (s, RunEnded)
      else case run_round q net enc ep r s of
          (s', False) \<Rightarrow> (s', RunServing)
        | (s', True) \<Rightarrow> if rn_mid r then (s', RunEnded) else run_loop q net enc ep rs (run_sleep net r s'))"

definition run_start :: "'c mirror \<Rightarrow> 'w \<Rightarrow> ('c, 'w, 'r) running" where
  "run_start m w = \<lparr>ru_mirror = m, ru_world = w, ru_backoff = BACKOFF_INITIAL, ru_sleeps = [],
     ru_attempts = [], ru_outs = [], ru_spawned = []\<rparr>"

definition mirror_run :: "('so, 'k, 'al, 'c, 'w) quic \<Rightarrow> ('c, 'w) net \<Rightarrow> 'e encoder \<Rightarrow>
    'r run_round list \<Rightarrow> 'c mirror \<Rightarrow> 'w \<Rightarrow> ('c, 'w, 'r) running \<times> run_phase" where
  "mirror_run q net enc rs m w =
     (case client_endpoint q m w of
        (Err e, w1) \<Rightarrow> (run_start m w1, RunFailed e)
      | (Ok ep, w1) \<Rightarrow>
          (case run_loop q net enc ep rs (run_start m w1) of
             (s, RunEnded) \<Rightarrow> (s\<lparr>ru_world := qu_close q ep (ru_world s)\<rparr>, RunEnded)
           | (s, phase) \<Rightarrow> (s, phase)))"

section \<open>What each task of a connection does\<close>

definition mirror_config :: "'c mirror \<Rightarrow> socket_addr \<times> socket_addr \<times> bytes" where
  "mirror_config m = (mi_proxy_server m, mi_inertia_server m, mi_cert_pin m)"

definition send_world :: "('c, 'w) net \<Rightarrow> 'c \<Rightarrow> u8 \<times> bytes \<Rightarrow> 'w \<Rightarrow> 'w" where
  "send_world net conn sd w = snd (send_all net conn (fst sd) [snd sd] w)"

lemma mirror_send_frame:
  "mi_conn (fst (mirror_send net source d mw)) = mi_conn (fst mw)"
  "mi_filter_set (fst (mirror_send net source d mw)) = mi_filter_set (fst mw)"
  "mirror_config (fst (mirror_send net source d mw)) = mirror_config (fst mw)"
  "mi_conn (fst mw) = Some conn \<Longrightarrow> snd (mirror_send net source d mw) = send_world net conn (source, d) (snd mw)"
  by (cases mw; simp add: mirror_send_def mirror_config_def send_world_def split: option.splits prod.splits)+

fun op_sends :: "mirror_op \<Rightarrow> (u8 \<times> bytes) list" where
  "op_sends (MoSend source d) = [(source, d)]"
| "op_sends _ = []"

fun op_fs_ops :: "mirror_op \<Rightarrow> fs_op list" where
  "op_fs_ops (MoSweep clk) = [Sweep clk]"
| "op_fs_ops _ = []"

lemma mirror_config_simps [simp]:
  "mirror_config (m\<lparr>mi_stats := st\<rparr>) = mirror_config m"
  "mirror_config (m\<lparr>mi_filter_set := fs\<rparr>) = mirror_config m"
  "mirror_config (m\<lparr>mi_conn := c\<rparr>) = mirror_config m"
  by (simp_all add: mirror_config_def)

lemma fs_run_Nil [simp]: "fs_run [] fs = fs"
  by (simp add: fs_run_def)

lemma mirror_op_frame:
  "mi_conn (fst (mirror_op_step net op mw)) = mi_conn (fst mw)"
  "mirror_config (fst (mirror_op_step net op mw)) = mirror_config (fst mw)"
  "mi_filter_set (fst (mirror_op_step net op mw)) = fs_run (op_fs_ops op) (mi_filter_set (fst mw))"
proof -
  show "mi_conn (fst (mirror_op_step net op mw)) = mi_conn (fst mw)"
    by (cases op; cases mw) (simp_all add: mirror_send_frame(1))
  show "mirror_config (fst (mirror_op_step net op mw)) = mirror_config (fst mw)"
    by (cases op; cases mw) (simp_all add: mirror_send_frame(3))
  show "mi_filter_set (fst (mirror_op_step net op mw)) = fs_run (op_fs_ops op) (mi_filter_set (fst mw))"
    by (cases op; cases mw) (simp_all add: mirror_send_frame(2) fs_run_def)
qed

lemma mirror_op_world:
  "mi_conn (fst mw) = Some conn \<Longrightarrow>
   snd (mirror_op_step net op mw) = fold (send_world net conn) (op_sends op) (snd mw)"
  by (cases op; cases mw) (simp_all add: mirror_send_frame(4))

text \<open>
  The events of a connection by task: the streams accepted, the datagrams read, the steps of the writer, the
  ticks of the control task; and, over all tasks, the operations on the filter set and the datagrams sent.
\<close>

fun ev_bundles :: "'r serve_event \<Rightarrow> 'r accepted list" where
  "ev_bundles (SeBundles p) = [p]"
| "ev_bundles _ = []"

fun ev_filters :: "'r serve_event \<Rightarrow> filter_poll list" where
  "ev_filters (SeFilters p) = [p]"
| "ev_filters _ = []"

fun ev_out :: "'r serve_event \<Rightarrow> out_event list" where
  "ev_out (SeOut ev) = [ev]"
| "ev_out _ = []"

fun ev_control :: "'r serve_event \<Rightarrow> control_poll list" where
  "ev_control (SeControl p) = [p]"
| "ev_control _ = []"

fun ev_fs_ops :: "'r serve_event \<Rightarrow> fs_op list" where
  "ev_fs_ops (SeFilters p) = poll_insert p"
| "ev_fs_ops (SeOther op) = op_fs_ops op"
| "ev_fs_ops _ = []"

fun ev_sends :: "'r serve_event \<Rightarrow> (u8 \<times> bytes) list" where
  "ev_sends (SeControl p) = map (Pair SOURCE_CONTROL) (reported [p])"
| "ev_sends (SeOther op) = op_sends op"
| "ev_sends _ = []"

abbreviation evs_of :: "('r serve_event \<Rightarrow> 'a list) \<Rightarrow> 'r serve_event list \<Rightarrow> 'a list" where
  "evs_of f evs \<equiv> concat (map f evs)"

text \<open>The events that the select handles before it ends.\<close>

fun handled :: "('c, 'w) net \<Rightarrow> 'e encoder \<Rightarrow> 'r serve_event list \<Rightarrow> ('c, 'w, 'r) serving \<Rightarrow> 'r serve_event list" where
  "handled net enc [] s = []"
| "handled net enc (ev # evs) s =
     ev # (case conn_step net enc ev s of (s', True) \<Rightarrow> [] | (s', False) \<Rightarrow> handled net enc evs s')"

abbreviation conn_next :: "('c, 'w) net \<Rightarrow> 'e encoder \<Rightarrow> 'r serve_event \<Rightarrow> ('c, 'w, 'r) serving \<Rightarrow> ('c, 'w, 'r) serving" where
  "conn_next net enc ev s \<equiv> fst (conn_step net enc ev s)"

lemma serve_connection_fold:
  "fst (serve_connection net enc evs s) = fold (conn_next net enc) (handled net enc evs s) s"
  by (induction evs arbitrary: s) (simp_all add: case_prod_beta split: bool.splits)

lemma handled_prefix:
  "\<exists>rest. evs = handled net enc evs s @ rest \<and> (snd (serve_connection net enc evs s) \<or> rest = [])"
  by (induction evs arbitrary: s) (simp_all add: case_prod_beta split: bool.splits)

lemma ingest_filter_frame:
  "mi_conn (ingest_filter now bs m) = mi_conn m"
  "mirror_config (ingest_filter now bs m) = mirror_config m"
  "mi_filter_set (ingest_filter now bs m) = fs_run (poll_insert (FpDatagram now bs)) (mi_filter_set m)"
  by (simp_all add: ingest_filter_eq fs_run_def mirror_config_def split: list.splits)

text \<open>One event touches only its own part of the state.\<close>

lemma conn_next_conn: "mi_conn (cn_mirror (conn_next net enc ev s)) = mi_conn (cn_mirror s)"
  by (cases "(net, enc, ev, s)" rule: conn_step.cases)
    (simp_all add: set_shared_def mirror_send_frame(1-3) mirror_op_frame ingest_filter_frame case_prod_beta)

lemma conn_next_config: "mirror_config (cn_mirror (conn_next net enc ev s)) = mirror_config (cn_mirror s)"
  by (cases "(net, enc, ev, s)" rule: conn_step.cases)
    (simp_all add: set_shared_def mirror_send_frame(1-3) mirror_op_frame ingest_filter_frame case_prod_beta)

lemma conn_next_filters:
  "mi_filter_set (cn_mirror (conn_next net enc ev s)) = fs_run (ev_fs_ops ev) (mi_filter_set (cn_mirror s))"
  by (cases "(net, enc, ev, s)" rule: conn_step.cases)
    (simp_all add: set_shared_def mirror_send_frame(1-3) mirror_op_frame ingest_filter_frame case_prod_beta
      del: poll_insert.simps(1))

lemma conn_next_world:
  "mi_conn (cn_mirror s) = Some conn \<Longrightarrow>
   cn_world (conn_next net enc ev s) = fold (send_world net conn) (ev_sends ev) (cn_world s)"
  by (cases "(net, enc, ev, s)" rule: conn_step.cases)
    (simp_all add: set_shared_def mirror_send_frame(4) mirror_op_world case_prod_beta)

definition out_next :: "'e encoder \<Rightarrow> out_event \<Rightarrow> bundle_out \<Rightarrow> bundle_out" where
  "out_next enc ev b = fst (out_step enc ev (b, stats_default))"

lemma out_step_next: "fst (out_step enc ev (b, st)) = out_next enc ev b"
  by (cases "bo_at b"; cases ev) (simp_all add: out_next_def out_step.simps out_wrote_def Let_def)

lemma fold_out_next: "fst (fold (out_step enc) evs (b, st)) = fold (out_next enc) evs b"
proof (induction evs arbitrary: b st)
  case (Cons ev evs)
  then show ?case
    by (cases "out_step enc ev (b, st)") (metis fold_simps(2) fst_conv out_step_next)
qed simp

lemma conn_next_out: "cn_out (conn_next net enc ev s) = fold (out_next enc) (ev_out ev) (cn_out s)"
  by (cases "(net, enc, ev, s)" rule: conn_step.cases)
    (simp_all add: set_shared_def out_step_next case_prod_beta)

lemma conn_next_out_inv: "out_inv enc (cn_out s) \<Longrightarrow> out_inv enc (cn_out (conn_next net enc ev s))"
  unfolding conn_next_out using out_inv_step [of enc "cn_out s" _ stats_default]
  by (cases ev) (simp_all add: out_next_def)

lemma fold_serve_next:
  "mi_conn (cn_mirror (fold (conn_next net enc) evs s)) = mi_conn (cn_mirror s)"
  "mirror_config (cn_mirror (fold (conn_next net enc) evs s)) = mirror_config (cn_mirror s)"
  "mi_filter_set (cn_mirror (fold (conn_next net enc) evs s)) =
     fs_run (evs_of ev_fs_ops evs) (mi_filter_set (cn_mirror s))"
  "cn_out (fold (conn_next net enc) evs s) = fold (out_next enc) (evs_of ev_out evs) (cn_out s)"
  by (induction evs arbitrary: s)
    (simp_all add: conn_next_conn conn_next_config conn_next_filters conn_next_out fs_run_def)

lemma fold_serve_next_world:
  "mi_conn (cn_mirror s) = Some conn \<Longrightarrow>
   cn_world (fold (conn_next net enc) evs s) = fold (send_world net conn) (evs_of ev_sends evs) (cn_world s)"
  by (induction evs arbitrary: s) (simp_all add: conn_next_conn conn_next_world)

text \<open>The select ends with the first event that ends one of the four tasks.\<close>

fun ev_ends :: "'r serve_event \<Rightarrow> bool" where
  "ev_ends (SeBundles p) = (\<forall>recv. p \<noteq> AcOk recv)"
| "ev_ends (SeFilters p) = (\<not> is_datagram p)"
| "ev_ends (SeControl p) = (p = CpShutdown)"
| "ev_ends _ = False"

lemma ev_ends_tasks:
  "(\<exists>ev \<in> set evs. ev_ends ev) \<longleftrightarrow>
     (\<exists>p \<in> set (evs_of ev_bundles evs). \<forall>recv. p \<noteq> AcOk recv) \<or>
     (\<exists>p \<in> set (evs_of ev_filters evs). \<not> is_datagram p) \<or> CpShutdown \<in> set (evs_of ev_control evs)"
proof (induction evs)
  case (Cons ev evs)
  then show ?case by (cases ev) auto
qed simp

lemma conn_step_fin:
  "snd (conn_step net enc ev s) \<longleftrightarrow>
     ev_ends ev \<or> (ev_out ev \<noteq> [] \<and> out_returned (bo_at (cn_out (conn_next net enc ev s))))"
  by (cases "(net, enc, ev, s)" rule: conn_step.cases) (simp_all add: case_prod_beta)

lemma conn_next_no_out: "ev_out ev = [] \<Longrightarrow> cn_out (conn_next net enc ev s) = cn_out s"
  unfolding conn_next_out by simp

lemma serve_connection_fin:
  assumes "\<not> out_returned (bo_at (cn_out s))"
  shows "snd (serve_connection net enc evs s) \<longleftrightarrow>
    (\<exists>ev \<in> set (handled net enc evs s). ev_ends ev) \<or>
    out_returned (bo_at (cn_out (fst (serve_connection net enc evs s))))"
  using assms
proof (induction evs arbitrary: s)
  case (Cons ev evs)
  obtain s' fin where step: "conn_step net enc ev s = (s', fin)" by force
  then have fin: "fin \<longleftrightarrow> ev_ends ev \<or> ev_out ev \<noteq> [] \<and> out_returned (bo_at (cn_out s'))"
    and same: "ev_out ev = [] \<Longrightarrow> cn_out s' = cn_out s"
    using conn_step_fin [of net enc ev s] conn_next_no_out [of ev net enc s] by simp_all
  show ?case
  proof (cases fin)
    case True
    then show ?thesis using step fin by auto
  next
    case False
    then have "\<not> out_returned (bo_at (cn_out s'))" and "\<not> ev_ends ev" using fin same Cons.prems by metis+
    then show ?thesis using Cons.IH [of s'] step False by simp
  qed
qed simp

lemma serve_connection_spawned:
  "cn_spawned (fst (serve_connection net enc evs s)) =
   cn_spawned s @ fst (read_bundles (evs_of ev_bundles (handled net enc evs s)))"
proof (induction evs arbitrary: s)
  case (Cons ev evs)
  show ?case
    by (cases "(net, enc, ev, s)" rule: conn_step.cases)
      (simp_all add: Cons.IH case_prod_beta set_shared_def split: bool.splits)
qed simp

text \<open>
  C20: a connection is served by one select over four tasks, interleaved with whatever the rest of the
  process does, and each task behaves as if it ran alone. For every sequence of events, the select handles
  a prefix of it. On that prefix, readers were spawned for exactly the streams that \<open>read_bundles\<close> accepts;
  the bundle writer is in the state in which \<open>mirror_bundles_out\<close> is after its own events; the filter set has
  gone through the insertions of \<open>read_filters\<close> and the sweeps of the delay thread, in order; the datagrams of
  the control task and of the packet tasks went to this connection, in order; and the connection stays the one
  that was set. The select has ended exactly if one of the four tasks has returned, and then it handles
  nothing more.
\<close>

theorem serve_connection_projects:
  "let s = conn_start (mirror_set (Some conn) m) w; evs' = handled net enc evs s;
       (c, fin) = serve_connection net enc evs s
   in (\<exists>rest. evs = evs' @ rest \<and> (fin \<or> rest = [])) \<and>
      cn_spawned c = fst (read_bundles (evs_of ev_bundles evs')) \<and>
      cn_out c = fst (mirror_bundles_out enc (evs_of ev_out evs') st) \<and>
      mi_filter_set (cn_mirror c) = fs_run (evs_of ev_fs_ops evs') (mi_filter_set m) \<and>
      cn_world c = fold (send_world net conn) (evs_of ev_sends evs') w \<and>
      mi_conn (cn_mirror c) = Some conn \<and>
      (fin \<longleftrightarrow> snd (read_bundles (evs_of ev_bundles evs')) \<or>
         (\<exists>p \<in> set (evs_of ev_filters evs'). \<not> is_datagram p) \<or>
         out_returned (bo_at (cn_out c)) \<or> CpShutdown \<in> set (evs_of ev_control evs'))"
proof -
  define s :: "('a, 'b, 'c) serving" where "s = conn_start (mirror_set (Some conn) m) w"
  define evs' where "evs' = handled net enc evs s"
  have conn: "mi_conn (cn_mirror s) = Some conn" and fs: "mi_filter_set (cn_mirror s) = mi_filter_set m"
    and out: "cn_out s = bundle_out_init" and rest: "cn_world s = w" "cn_spawned s = []"
    by (simp_all add: s_def conn_start_def mirror_set_def)
  have c: "fst (serve_connection net enc evs s) = fold (conn_next net enc) evs' s"
    by (simp add: serve_connection_fold evs'_def)
  have "snd (serve_connection net enc evs s) \<longleftrightarrow> (\<exists>ev \<in> set evs'. ev_ends ev) \<or>
      out_returned (bo_at (cn_out (fst (serve_connection net enc evs s))))"
    unfolding evs'_def by (rule serve_connection_fin) (simp add: out bundle_out_init_def)
  then show ?thesis
    using handled_prefix [of evs net enc s] serve_connection_spawned [of net enc evs s]
      read_bundles_accepted [of "evs_of ev_bundles evs'"] conn
    unfolding s_def [symmetric] Let_def evs'_def [symmetric] ev_ends_tasks
    by (simp add: case_prod_beta c fold_serve_next fold_serve_next_world [OF conn] fs out rest
        mirror_bundles_out_def fold_out_next) blast
qed

section \<open>Invariants of the reconnect loop\<close>

text \<open>
  What rustls documents: a handshake over an endpoint, which for QUIC is one of TLS 1.3, completes only if the
  certificate verifier of the endpoint's configuration accepted the certificate of the peer and its signature of
  the handshake.
\<close>

definition ep_verifier :: "('so, 'al) endpoint \<Rightarrow> 'al pinned_verifier" where
  "ep_verifier ep = cc_verifier (cf_crypto (ep_default_client_config ep))"

definition checks_server_cert :: "(bytes \<Rightarrow> bytes) \<Rightarrow> 'al tls \<Rightarrow> ('so, 'k, 'al, 'c, 'w) quic \<Rightarrow> bool" where
  "checks_server_cert sha256 tls q \<longleftrightarrow>
     (\<forall>ep addr name w k w1 w2 conn w3.
        qu_connect q ep addr name w = (Ok k, w1) \<longrightarrow> qu_handshake q k w2 = (Ok conn, w3) \<longrightarrow>
        verify_server_cert sha256 (pv_pinned_sha256 (ep_verifier ep)) (qu_peer_cert q conn) = Ok () \<and>
        (case qu_signed q conn of (message, dss) \<Rightarrow>
          verify_tls13_signature tls (ep_verifier ep) message (qu_peer_cert q conn) dss = Ok ()))"

text \<open>The peer of a connection showed the pinned certificate and signed the handshake with its key.\<close>

definition peer_ok :: "(bytes \<Rightarrow> bytes) \<Rightarrow> 'al tls \<Rightarrow> ('so, 'k, 'al, 'c, 'w) quic \<Rightarrow> bytes \<Rightarrow> 'c \<Rightarrow> bool" where
  "peer_ok sha256 tls q pin conn \<longleftrightarrow> sha256 (qu_peer_cert q conn) = pin \<and>
     (case qu_signed q conn of (message, dss) \<Rightarrow>
       tl_verify_tls13_signature tls message (qu_peer_cert q conn) dss (qu_provider q) = Ok ())"

lemma client_endpoint_verifier:
  "client_endpoint q m w = (Ok ep, w') \<Longrightarrow> ep_verifier ep = \<lparr>pv_provider = qu_provider q, pv_pinned_sha256 = mi_cert_pin m\<rparr>"
  by (auto simp: client_endpoint_def client_config_of_def Let_def ep_verifier_def split: result.splits prod.splits)

lemma connect_pin:
  assumes "checks_server_cert sha256 tls q" and "connect q ep m w = (Ok conn, w')"
    and "client_endpoint q m' w1 = (Ok ep, w2)"
  shows "peer_ok sha256 tls q (mi_cert_pin m') conn"
proof -
  obtain k w1 where "qu_connect q ep (mi_inertia_server m) SERVER_NAME w = (Ok k, w1)"
    and "qu_handshake q k w1 = (Ok conn, w')"
    using assms(2) by (auto simp: connect_def split: result.splits prod.splits)
  then have "verify_server_cert sha256 (pv_pinned_sha256 (ep_verifier ep)) (qu_peer_cert q conn) = Ok () \<and>
      (case qu_signed q conn of (message, dss) \<Rightarrow>
        verify_tls13_signature tls (ep_verifier ep) message (qu_peer_cert q conn) dss = Ok ())"
    using assms(1) [unfolded checks_server_cert_def, rule_format] by simp
  then show ?thesis
    unfolding client_endpoint_verifier [OF assms(3)] verify_server_cert_Ok
    by (simp add: peer_ok_def verify_tls13_signature_def)
qed

lemma fold_mirror_op_frame:
  "mi_conn (fst (fold (mirror_op_step net) ops mw)) = mi_conn (fst mw)"
  "mirror_config (fst (fold (mirror_op_step net) ops mw)) = mirror_config (fst mw)"
  by (induction ops arbitrary: mw) (simp_all add: mirror_op_frame)

lemma run_others_frame:
  "mi_conn (ru_mirror (run_others net ops s)) = mi_conn (ru_mirror s)"
  "mirror_config (ru_mirror (run_others net ops s)) = mirror_config (ru_mirror s)"
  "ru_backoff (run_others net ops s) = ru_backoff s" "ru_sleeps (run_others net ops s) = ru_sleeps s"
  "ru_attempts (run_others net ops s) = ru_attempts s" "ru_outs (run_others net ops s) = ru_outs s"
  by (simp_all add: run_others_def case_prod_beta fold_mirror_op_frame)

text \<open>
  Between two rounds no connection is set; while one is served it is one that \<open>connect\<close> gave. All bundle writers
  of the past satisfy their invariant, and there is one for each attempt that connected.
\<close>

definition run_inv :: "('c \<Rightarrow> bool) \<Rightarrow> 'e encoder \<Rightarrow> ('c, 'w, 'r) running \<Rightarrow> bool" where
  "run_inv good enc s \<longleftrightarrow>
     (\<forall>conn. mi_conn (ru_mirror s) = Some conn \<longrightarrow> good conn) \<and>
     (\<forall>b \<in> set (ru_outs s). out_inv enc b) \<and>
     length (ru_outs s) = count_list (ru_attempts s) True"

lemma serve_connection_out_inv:
  "out_inv enc (cn_out s) \<Longrightarrow> out_inv enc (cn_out (fst (serve_connection net enc evs s)))"
proof (induction evs arbitrary: s)
  case (Cons ev evs)
  then show ?case
    using conn_next_out_inv [of enc s net ev] by (auto split: prod.splits bool.splits)
qed simp

lemma run_round_inv:
  assumes "run_inv good enc s" and "mi_conn (ru_mirror s) = None"
    and "\<And>m w conn w'. connect q ep m w = (Ok conn, w') \<Longrightarrow> good conn"
    and "run_round q net enc ep r s = (s', fin)"
  shows "run_inv good enc s' \<and> (fin \<longrightarrow> mi_conn (ru_mirror s') = None)"
proof -
  define s1 where "s1 = run_others net (rn_connecting r) s"
  have s1: "run_inv good enc s1" "mi_conn (ru_mirror s1) = None"
    using assms(1,2) by (simp_all add: s1_def run_inv_def run_others_frame)
  obtain res w where res: "connect q ep (ru_mirror s1) (ru_world s1) = (res, w)" by force
  show ?thesis
  proof (cases res)
    case (Err e)
    then show ?thesis
      using assms(4) s1 res by (auto simp: run_round_def s1_def [symmetric] run_inv_def)
  next
    case (Ok conn)
    let ?s = "conn_start (mirror_set (Some conn) (ru_mirror s1)) w"
    obtain c fin' where c: "serve_connection net enc (rn_events r) ?s = (c, fin')" by force
    have "mi_conn (cn_mirror c) = Some conn" and "out_inv enc (cn_out c)"
      using arg_cong [OF c, of fst] serve_connection_out_inv [of enc ?s net "rn_events r"]
      by (auto simp: serve_connection_fold fold_serve_next(1) conn_start_def mirror_set_def)
    then show ?thesis
      using assms(3) [of "ru_mirror s1" "ru_world s1" conn w] assms(4) s1 res Ok c
      by (auto simp: run_round_def s1_def [symmetric] run_inv_def mirror_set_def Let_def)
  qed
qed

lemma run_sleep_inv:
  "run_inv good enc (run_sleep net r s) = run_inv good enc s"
  "mi_conn (ru_mirror (run_sleep net r s)) = mi_conn (ru_mirror s)"
  by (simp_all add: run_inv_def run_sleep_def run_others_frame)

lemma run_loop_inv:
  assumes "run_inv good enc s" and "mi_conn (ru_mirror s) = None"
    and "\<And>m w conn w'. connect q ep m w = (Ok conn, w') \<Longrightarrow> good conn"
    and "run_loop q net enc ep rs s = (s', phase)"
  shows "run_inv good enc s' \<and> (phase = RunServing \<or> mi_conn (ru_mirror s') = None)"
  using assms(1,2,4)
proof (induction rs arbitrary: s)
  case (Cons r rs)
  show ?case
  proof (cases "rn_top r")
    case False
    obtain s1 fin where round: "run_round q net enc ep r s = (s1, fin)" by force
    have inv: "run_inv good enc s1 \<and> (fin \<longrightarrow> mi_conn (ru_mirror s1) = None)"
      using run_round_inv [OF Cons.prems(1,2) assms(3) round] .
    then have "run_inv good enc (run_sleep net r s1)"
      and "fin \<Longrightarrow> mi_conn (ru_mirror (run_sleep net r s1)) = None"
      by (simp_all add: run_sleep_inv)
    then show ?thesis
      using Cons.IH Cons.prems(3) False round inv by (auto split: bool.splits if_splits)
  qed (use Cons.prems in auto)
qed auto

lemma run_start_inv:
  "mi_conn m = None \<Longrightarrow> run_inv good enc (run_start m w)"
  "mi_conn (ru_mirror (run_start m w)) = mi_conn m"
  by (simp_all add: run_inv_def run_start_def)

lemma mirror_run_inv:
  assumes "mi_conn m = None"
    and "\<And>ep m' w conn w1 w2 w3. client_endpoint q m w1 = (Ok ep, w2) \<Longrightarrow>
      connect q ep m' w = (Ok conn, w3) \<Longrightarrow> good conn"
    and "mirror_run q net enc rs m w = (s, phase)"
  shows "run_inv good enc s \<and> (phase = RunServing \<or> mi_conn (ru_mirror s) = None)"
proof -
  obtain res w1 where res: "client_endpoint q m w = (res, w1)" by force
  show ?thesis
  proof (cases res)
    case (Err e)
    then show ?thesis using assms(1,3) res by (auto simp: mirror_run_def run_start_inv)
  next
    case (Ok ep)
    obtain s1 phase1 where loop: "run_loop q net enc ep rs (run_start m w1) = (s1, phase1)" by force
    have "run_inv good enc s1 \<and> (phase1 = RunServing \<or> mi_conn (ru_mirror s1) = None)"
      using run_loop_inv [OF run_start_inv(1) _ _ loop] assms(1,2) res Ok by (simp add: run_start_inv(2))
    then show ?thesis
      using assms(3) res Ok loop by (cases phase1) (auto simp: mirror_run_def run_inv_def)
  qed
qed

section \<open>Backoff\<close>

lemma backoff_consts: "0 < BACKOFF_INITIAL" "BACKOFF_INITIAL \<le> BACKOFF_MAX"
  by (simp_all add: BACKOFF_INITIAL_def BACKOFF_MAX_def rust_defs)

definition backoff_at :: "nat \<Rightarrow> duration" where
  "backoff_at e = min (BACKOFF_INITIAL * 2 ^ e) BACKOFF_MAX"

lemma backoff_at_0 [simp]: "backoff_at 0 = BACKOFF_INITIAL"
  using backoff_consts by (simp add: backoff_at_def)

lemma backoff_at_Suc: "min (backoff_at e * 2) BACKOFF_MAX = backoff_at (Suc e)"
  by (simp add: backoff_at_def min_def)

text \<open>How often the delay has doubled at each attempt: an attempt that connects resets the count.\<close>

fun doublings :: "bool list \<Rightarrow> nat \<Rightarrow> nat list" where
  "doublings [] e = []"
| "doublings (connected # cs) e =
     (let e' = (if connected then 0 else e) in e' # doublings cs (Suc e'))"

lemma length_doublings [simp]: "length (doublings cs e) = length cs"
  by (induction cs e rule: doublings.induct) (simp_all add: Let_def)

lemma run_round_log:
  assumes "run_round q net enc ep r s = (s', fin)"
  shows "\<exists>connected. ru_attempts s' = ru_attempts s @ [connected] \<and> ru_sleeps s' = ru_sleeps s \<and>
    ru_backoff s' = (if connected then BACKOFF_INITIAL else ru_backoff s)"
proof -
  let ?s = "run_others net (rn_connecting r) s"
  obtain res w where res: "connect q ep (ru_mirror ?s) (ru_world ?s) = (res, w)" by force
  show ?thesis
  proof (cases res)
    case (Ok conn)
    obtain c fin' where "serve_connection net enc (rn_events r)
        (conn_start (mirror_set (Some conn) (ru_mirror ?s)) w) = (c, fin')" by force
    then show ?thesis
      using assms res Ok by (intro exI [of _ True]) (auto simp: run_round_def run_others_frame Let_def)
  next
    case (Err e)
    then show ?thesis
      using assms res by (intro exI [of _ False]) (auto simp: run_round_def run_others_frame Let_def)
  qed
qed

lemma run_loop_sleeps:
  assumes "ru_backoff s = backoff_at e" and "run_loop q net enc ep rs s = (s', phase)"
  shows "\<exists>atts slps. ru_attempts s' = ru_attempts s @ atts \<and> ru_sleeps s' = ru_sleeps s @ slps \<and>
    prefix slps (map backoff_at (doublings atts e)) \<and> length atts \<le> Suc (length slps) \<and>
    (phase = RunWaiting \<longrightarrow> length atts = length slps) \<and> (phase = RunServing \<longrightarrow> length atts = Suc (length slps))"
  using assms
proof (induction rs arbitrary: s e)
  case (Cons r rs)
  obtain s1 fin where round: "run_round q net enc ep r s = (s1, fin)" by force
  then obtain c where c: "ru_attempts s1 = ru_attempts s @ [c]" "ru_sleeps s1 = ru_sleeps s"
    "ru_backoff s1 = backoff_at (if c then 0 else e)"
    using run_round_log [OF round] Cons.prems(1) by (auto split: if_splits)
  let ?s2 = "run_sleep net r s1" and ?e = "if c then 0 else e"
  have s2: "ru_attempts ?s2 = ru_attempts s @ [c]" "ru_sleeps ?s2 = ru_sleeps s @ [backoff_at ?e]"
    "ru_backoff ?s2 = backoff_at (Suc ?e)"
    using c backoff_at_Suc [of ?e] by (simp_all add: run_sleep_def run_others_frame)
  consider "s' = s" "phase = RunEnded" | "s' = s1" "phase \<noteq> RunWaiting" |
    "run_loop q net enc ep rs ?s2 = (s', phase)"
    using Cons.prems(2) round by (cases "rn_top r"; cases fin; cases "rn_mid r") simp_all
  then show ?case
  proof cases
    case 3
    from Cons.IH [OF s2(3) this] obtain atts slps where "ru_attempts s' = ru_attempts ?s2 @ atts"
      "ru_sleeps s' = ru_sleeps ?s2 @ slps" "prefix slps (map backoff_at (doublings atts (Suc ?e)))"
      "length atts \<le> Suc (length slps)" "phase = RunWaiting \<longrightarrow> length atts = length slps"
      "phase = RunServing \<longrightarrow> length atts = Suc (length slps)"
      by blast
    then show ?thesis
      by (intro exI [of _ "c # atts"] exI [of _ "backoff_at ?e # slps"]) (simp add: s2 Let_def)
  qed (use c in auto)
qed auto

text \<open>
  C31: the pauses between connection attempts, for every run. Each is 250 milliseconds doubled once for each
  attempt since the last one that connected, capped at five seconds. There is one pause after every attempt,
  except after the one whose connection is still being served or after which shutdown was seen. If the
  endpoint cannot be built, there is neither an attempt nor a pause.
\<close>

theorem mirror_run_sleeps:
  "let (s, phase) = mirror_run q net enc rs m w
   in prefix (ru_sleeps s) (map (\<lambda>e. min (from_millis 250 * 2 ^ e) (from_secs 5)) (doublings (ru_attempts s) 0)) \<and>
      (case phase of
         RunFailed e \<Rightarrow> ru_attempts s = []
       | RunWaiting \<Rightarrow> length (ru_attempts s) = length (ru_sleeps s)
       | RunServing \<Rightarrow> length (ru_attempts s) = Suc (length (ru_sleeps s))
       | RunEnded \<Rightarrow> length (ru_attempts s) \<in> {length (ru_sleeps s), Suc (length (ru_sleeps s))}) \<and>
      (\<forall>e. phase = RunFailed e \<longleftrightarrow> fst (client_endpoint q m w) = Err e)"
proof -
  have bo: "backoff_at = (\<lambda>e. min (from_millis 250 * 2 ^ e) (from_secs 5))"
    by (rule ext) (simp add: backoff_at_def BACKOFF_INITIAL_def BACKOFF_MAX_def)
  have failed: "snd (run_loop q net enc ep rs s) \<noteq> RunFailed e" for ep s e
    by (induction rs arbitrary: s) (auto split: prod.splits bool.splits)
  obtain res w1 where res: "client_endpoint q m w = (res, w1)" by force
  show ?thesis
  proof (cases res)
    case (Err e)
    then show ?thesis using res by (simp add: mirror_run_def run_start_def)
  next
    case (Ok ep)
    obtain s phase where loop: "run_loop q net enc ep rs (run_start m w1) = (s, phase)" by force
    then have "phase \<noteq> RunFailed e" for e using failed [of ep "run_start m w1" e] by simp
    moreover have "prefix (ru_sleeps s) (map backoff_at (doublings (ru_attempts s) 0)) \<and>
        length (ru_attempts s) \<le> Suc (length (ru_sleeps s)) \<and>
        (phase = RunWaiting \<longrightarrow> length (ru_attempts s) = length (ru_sleeps s)) \<and>
        (phase = RunServing \<longrightarrow> length (ru_attempts s) = Suc (length (ru_sleeps s)))"
      using run_loop_sleeps [OF _ loop, of 0] by (auto simp: run_start_def)
    moreover from this have "length (ru_sleeps s) \<le> length (ru_attempts s)"
      using prefix_length_le [of "ru_sleeps s"] by (metis length_doublings length_map)
    ultimately show ?thesis
      using res Ok loop
      by (cases phase) (auto simp: mirror_run_def bo)
  qed
qed

section \<open>A run\<close>

text \<open>
  Libraries for the witnesses: every call succeeds, a connection is the certificate its peer shows, the hash of a
  certificate is the certificate, and a handshake shows the certificate that the endpoint pins. In the run, the
  first connection is lost in the middle of a frame, the second is being served.
\<close>

definition quic_example :: "(unit, bytes, nat, bytes, unit) quic" where
  "quic_example = \<lparr>qu_provider = 3, qu_protocol_versions = Ok (), qu_quic_config = (\<lambda>_. Ok ()), qu_idle_timeout = (\<lambda>_. Ok ()),
     qu_bind = (\<lambda>_ w. (Ok (), w)), qu_connect = (\<lambda>ep _ _ w. (Ok (pv_pinned_sha256 (ep_verifier ep)), w)),
     qu_handshake = (\<lambda>k w. (Ok k, w)), qu_close = (\<lambda>_ w. w), qu_peer_cert = (\<lambda>c. c),
     qu_signed = (\<lambda>c. ([1], \<lparr>dss_scheme = 4, dss_signature = c @ [1]\<rparr>))\<rparr>"

text \<open>A signature scheme for the example: the signature of a message is the certificate and the message.\<close>

definition tls_example :: "nat tls" where
  "tls_example = (let verify = (\<lambda>message cert dss alg. if dss_signature dss = cert @ message then Ok () else Err ''bad'')
     in \<lparr>tl_verify_tls12_signature = verify, tl_verify_tls13_signature = verify, tl_supported_schemes = (\<lambda>alg. [alg])\<rparr>)"

definition net_ok :: "('c, unit) net" where
  "net_ok = \<lparr>nt_system_time = (\<lambda>w. (0, w)), nt_send_datagram = (\<lambda>_ _ w. (DgOk, w))\<rparr>"

definition rounds_example :: "nat run_round list" where
  "rounds_example =
     [\<lparr>rn_top = False, rn_connecting = [], rn_events = map SeOut out_events_example, rn_mid = False,
        rn_sleeping = [MoSend 0 [1]]\<rparr>,
      \<lparr>rn_top = False, rn_connecting = [MoSwap BundlesSent],
        rn_events = [SeOut OeOpened, SeBundles (AcOk 5), SeControl (CpTick (Some [7])), SeOut (OeRecv (resp_example 1))],
        rn_mid = False, rn_sleeping = []\<rparr>]"

definition run_example :: "(bytes, unit, nat) running \<times> run_phase" where
  "run_example = mirror_run quic_example net_ok enc_example rounds_example mirror_example ()"

lemmas run_evaluation = mirror_run_def client_endpoint_def client_config_of_def connect_def run_round_def run_sleep_def
  run_others_def run_start_def conn_start_def mirror_set_def set_shared_def quic_example_def ep_verifier_def net_ok_def
  mirror_send_def count_datagram_def source_defs out_step.simps out_recv_def out_wrote_def bundle_out_init_def
  enc_example_def resp_example_def u32_to_le_bytes_def

lemma run_example_run:
  "map bo_written (ru_outs (fst run_example)) = [[resp_example 2], []]"
  "map bo_taken (ru_outs (fst run_example)) = [[resp_example 2, resp_example 1], [resp_example 1]]"
  "mi_conn (ru_mirror (fst run_example)) = Some (replicate 32 7)"
  "ru_attempts (fst run_example) = [True, True]"
  "snd run_example = RunServing"
  by (simp_all add: run_example_def rounds_example_def out_events_example_def run_evaluation)

section \<open>Properties of a run\<close>

text \<open>
  The mirror holds a connection only while it is being served: whenever the loop is between two
  attempts, and after it ends, no connection is set. A task that fetched the connection before it was
  unset may still send on it; the send then fails and is counted as dropped.
\<close>

theorem mirror_run_disconnected:
  assumes "mi_conn m = None" and "mirror_run q net enc rs m w = (s, phase)" and "phase \<noteq> RunServing"
  shows "mi_conn (ru_mirror s) = None"
  using mirror_run_inv [OF assms(1) _ assms(2), of "\<lambda>_. True"] assms(3) by simp

text \<open>
  C21: the mirror only ever talks to the pinned server. Suppose TLS does what it documents, that is, a handshake
  completes only if the certificate verifier of the endpoint accepted the peer's certificate and its signature of
  the handshake. Then, at any point of any run from a mirror configured with a fingerprint parsed from the command
  line, a connection that is set is being served and belongs to a peer whose certificate has the SHA-256 of that
  text and that signed the handshake with the key of this certificate, as rustls checks it with the algorithms of
  its default provider. All datagrams go to the connection that is set.
\<close>

theorem mirror_peer_pinned:
  assumes "checks_server_cert sha256 tls q" and "parse_cert_pin text_pin = Ok pin"
    and "mirror_run q net enc rs (mirror_new proxy_server inertia_server pin) w = (s, phase)"
    and "mi_conn (ru_mirror s) = Some conn"
  shows "hex_encode (sha256 (qu_peer_cert q conn)) = map to_lower (pin_clean text_pin) \<and>
    (case qu_signed q conn of (message, dss) \<Rightarrow>
      tl_verify_tls13_signature tls message (qu_peer_cert q conn) dss (qu_provider q) = Ok ()) \<and>
    phase = RunServing"
proof -
  let ?m = "mirror_new proxy_server inertia_server pin"
  have "run_inv (peer_ok sha256 tls q pin) enc s \<and> (phase = RunServing \<or> mi_conn (ru_mirror s) = None)"
  proof (rule mirror_run_inv [OF _ _ assms(3)])
    fix ep m' w conn w1 w2 w3
    assume "client_endpoint q ?m w1 = (Ok ep, w2)" and "connect q ep m' w = (Ok conn, w3)"
    from connect_pin [OF assms(1) this(2,1)] show "peer_ok sha256 tls q pin conn" by (simp add: mirror_new_def)
  qed (simp add: mirror_new_def)
  then show ?thesis
    using assms(4) parse_cert_pin_hex [OF assms(2)] by (auto simp: run_inv_def peer_ok_def)
qed

theorem mirror_peer_pinned_witness:
  "mi_conn (ru_mirror (fst run_example)) = Some (replicate 32 7) \<and> snd run_example = RunServing \<and>
   hex_encode (qu_peer_cert quic_example (replicate 32 7)) = map to_lower (pin_clean (hex_encode (replicate 32 7)))"
proof -
  have 1: "checks_server_cert (\<lambda>cert. cert) tls_example quic_example"
    by (auto simp: checks_server_cert_def quic_example_def tls_example_def Let_def verify_server_cert_Ok
        verify_tls13_signature_def)
  have 2: "parse_cert_pin (hex_encode (replicate 32 7)) = Ok (replicate 32 7)"
    by (rule parse_cert_pin_roundtrip) (simp_all add: pin_clean_hex_encode)
  have 3: "mirror_run quic_example net_ok enc_example rounds_example
      (mirror_new (V4 127 0 0 1, 0) (V4 10 0 0 1, 8080) (replicate 32 7)) () = (fst run_example, snd run_example)"
    by (simp add: run_example_def flip: mirror_example_def)
  show ?thesis
    using mirror_peer_pinned [OF 1 2 3 run_example_run(3)] run_example_run(3) by simp
qed



end
