(* ===== verification/Proxy_System.thy ===== *)
theory Proxy_System
  imports Delay Connection
begin

text \<open>
  The tasks that \<open>Proxy::new\<close> of \<open>src/proxy/mod.rs\<close> spawns, running together on the one mirror and filter set
  they share: the delay thread of the TPU, the two \<open>delay_forward\<close> tasks, and in the background the mirror's
  own tasks. The theories \<open>Delay\<close> and \<open>Connection\<close> follow each task through its whole loop and take the others
  as interference; here every access to the shared data is a step of its own, the steps of all tasks
  interleave freely, and there is one monotone clock. The log of the steps lets the properties speak about
  the order in which things happened across tasks.
\<close>

section \<open>Items and lines\<close>

text \<open>What the three delay lines carry, with the datagrams and the filter of each kind of item.\<close>

datatype line = TpuLine | PacketLine | BundleLine

datatype 'b item = BatchItem "'b banking_batch" | PacketsItem be_packets_response | BundlesItem be_bundles_response

fun item_line :: "'b item \<Rightarrow> line" where
  "item_line (BatchItem batch) = TpuLine"
| "item_line (PacketsItem resp) = PacketLine"
| "item_line (BundlesItem resp) = BundleLine"

fun item_datagrams :: "'b pdata \<Rightarrow> 'b item \<Rightarrow> bytes list" where
  "item_datagrams pdata (BatchItem batch) = live_data pdata batch"
| "item_datagrams pdata (PacketsItem resp) = map pp_data (be_packet_units resp)"
| "item_datagrams pdata (BundlesItem resp) = []"

fun item_filter :: "'b pdata \<Rightarrow> filter_set \<Rightarrow> 'b item \<Rightarrow> 'b item" where
  "item_filter pdata fs (BatchItem batch) = BatchItem (discard_filtered pdata fs batch)"
| "item_filter pdata fs (PacketsItem resp) = PacketsItem (filter_be_packets fs resp)"
| "item_filter pdata fs (BundlesItem resp) = BundlesItem (filter_be_bundles fs resp)"

fun line_source :: "line \<Rightarrow> u8" where
  "line_source TpuLine = SOURCE_RELAYER"
| "line_source PacketLine = SOURCE_BLOCKENGINE"
| "line_source BundleLine = SOURCE_BLOCKENGINE"

section \<open>State\<close>

text \<open>Where a task stands: waiting, mirroring an item, before the sweep, before and in the release loop, ended.\<close>

datatype 'b pc =
  Idle | Mirroring "'b item" "bytes list" | Sweeping | Clock | Releasing instant | Ended

record 'b task =
  tk_pc :: "'b pc"
  tk_queue :: "'b item delay_queue"

datatype ('b, 'c) event =
    FilterOp fs_op
  | Sent u8 bytes "'c option"
  | Queued "'b item"
  | Released "'b item" "'b item"

text \<open>The log is newest first, each event with the clock at its end.\<close>

record ('b, 'c, 'w) shared =
  ps_mirror :: "'c mirror"
  ps_world :: 'w
  ps_now :: instant
  ps_log :: "(instant \<times> ('b, 'c) event) list"

record ('b, 'c, 'w) proxy_sys =
  pr_tasks :: "line \<Rightarrow> 'b task"
  pr_shared :: "('b, 'c, 'w) shared"

definition record_event :: "('b, 'c) event \<Rightarrow> ('b, 'c, 'w) shared \<Rightarrow> ('b, 'c, 'w) shared" where
  "record_event ev s = s\<lparr>ps_log := (ps_now s, ev) # ps_log s\<rparr>"

definition ps_filters :: "('b, 'c, 'w) shared \<Rightarrow> filter_set" where
  "ps_filters s = mi_filter_set (ps_mirror s)"

definition send_logged :: "('c, 'w) net \<Rightarrow> u8 \<Rightarrow> bytes \<Rightarrow> ('b, 'c, 'w) shared \<Rightarrow> ('b, 'c, 'w) shared" where
  "send_logged net source d s =
     (case mirror_send net source d (ps_mirror s, ps_world s) of (m, w) \<Rightarrow>
       record_event (Sent source d (mi_conn (ps_mirror s))) (s\<lparr>ps_mirror := m, ps_world := w\<rparr>))"

section \<open>The delay lines\<close>

text \<open>
  One step of a task. The sweep reads the clock at every entry of the map, at some point of the time it takes:
  \<open>DoSweep off d\<close> takes \<open>d\<close> and reads the clock for a signature after \<open>off\<close> of its share. \<open>Wake\<close> is the receive
  timeout of the TPU thread and the timer of a \<open>delay_forward\<close>; \<open>Stop\<close> is the exit flag, the shutdown channel or
  the end of the incoming channel; a receiver that lagged changes nothing and is no step; \<open>Release ok\<close> is one turn of the release loop with the result of the send,
  which only the TPU thread looks at. \<open>None\<close>: the task cannot do this now.
\<close>

datatype 'b action =
    Recv "'b item" | Wake | Stop | Mirror1 | Push | DoSweep "signature \<Rightarrow> duration" duration | ReadClock
  | Release bool | EndRelease

fun task_step :: "'b pdata \<Rightarrow> ('c, 'w) net \<Rightarrow> line \<Rightarrow> 'b action \<Rightarrow> 'b task \<Rightarrow> ('b, 'c, 'w) shared \<Rightarrow>
    ('b task \<times> ('b, 'c, 'w) shared) option" where
  "task_step pdata net l act tk s =
     (case (tk_pc tk, act) of
        (Idle, Stop) \<Rightarrow> Some (tk\<lparr>tk_pc := Ended\<rparr>, s)
      | (Idle, Recv x) \<Rightarrow>
          if item_line x = l then Some (tk\<lparr>tk_pc := Mirroring x (item_datagrams pdata x)\<rparr>, s) else None
      | (Idle, Wake) \<Rightarrow>
          if l = TpuLine then Some (tk\<lparr>tk_pc := Sweeping\<rparr>, s)
          else if front_due (ps_now s) (tk_queue tk) then Some (tk\<lparr>tk_pc := Clock\<rparr>, s) else None
      | (Mirroring x (d # ds), Mirror1) \<Rightarrow>
          Some (tk\<lparr>tk_pc := Mirroring x ds\<rparr>, send_logged net (line_source l) d s)
      | (Mirroring x [], Push) \<Rightarrow>
          Some (tk\<lparr>tk_pc := (if l = TpuLine then Sweeping else Idle),
                  tk_queue := tk_queue tk @ [(ps_now s + PACKET_DELAY, x)]\<rparr>, record_event (Queued x) s)
      | (Sweeping, DoSweep off d) \<Rightarrow>
          (let clk = (\<lambda>sig. ps_now s + min (off sig) d)
           in Some (tk\<lparr>tk_pc := Clock\<rparr>, record_event (FilterOp (Sweep clk))
                (s\<lparr>ps_mirror := (ps_mirror s)\<lparr>mi_filter_set := fs_sweep clk (ps_filters s)\<rparr>,
                   ps_now := ps_now s + d\<rparr>)))
      | (Clock, ReadClock) \<Rightarrow> Some (tk\<lparr>tk_pc := Releasing (ps_now s)\<rparr>, s)
      | (Releasing now, Release ok) \<Rightarrow>
          (case tk_queue tk of
             (at, x) # q \<Rightarrow>
               if at \<le> now
               then Some (tk\<lparr>tk_pc := (if ok \<or> l \<noteq> TpuLine then Releasing now else Ended), tk_queue := q\<rparr>,
                 record_event (Released x (item_filter pdata (ps_filters s) x)) s)
               else None
           | [] \<Rightarrow> None)
      | (Releasing now, EndRelease) \<Rightarrow>
          if front_due now (tk_queue tk) then None else Some (tk\<lparr>tk_pc := Idle\<rparr>, s)
      | _ \<Rightarrow> None)"

declare task_step.simps [simp del]

section \<open>The background\<close>

text \<open>
  What the mirror's own tasks do to the shared data: take in a datagram of the Inertia server, set or unset the
  connection, report the validator, count, swap a counter out; and time passes.
\<close>

datatype 'c background =
    Ingest bytes | SetConn "'c option" | Control bytes | CountStat stat_event | SwapStat counter | Pass duration

fun background_step :: "('c, 'w) net \<Rightarrow> 'c background \<Rightarrow> ('b, 'c, 'w) shared \<Rightarrow> ('b, 'c, 'w) shared" where
  "background_step net (Ingest bs) s =
     fold (\<lambda>op. record_event (FilterOp op)) (poll_insert (FpDatagram (ps_now s) bs))
       (s\<lparr>ps_mirror := ingest_filter (ps_now s) bs (ps_mirror s)\<rparr>)"
| "background_step net (SetConn conn) s = s\<lparr>ps_mirror := mirror_set conn (ps_mirror s)\<rparr>"
| "background_step net (Control identity) s = send_logged net SOURCE_CONTROL identity s"
| "background_step net (CountStat ev) s =
     s\<lparr>ps_mirror := (ps_mirror s)\<lparr>mi_stats := count_event ev (mi_stats (ps_mirror s))\<rparr>\<rparr>"
| "background_step net (SwapStat c) s =
     s\<lparr>ps_mirror := (ps_mirror s)\<lparr>mi_stats := counter_set c 0 (mi_stats (ps_mirror s))\<rparr>\<rparr>"
| "background_step net (Pass d) s = s\<lparr>ps_now := ps_now s + d\<rparr>"

section \<open>The system\<close>

inductive proxy_step :: "'b pdata \<Rightarrow> ('c, 'w) net \<Rightarrow> ('b, 'c, 'w) proxy_sys \<Rightarrow> ('b, 'c, 'w) proxy_sys \<Rightarrow> bool"
  for pdata net where
  task: "task_step pdata net l act (pr_tasks s l) (pr_shared s) = Some (tk, sh) \<Longrightarrow>
    proxy_step pdata net s (s\<lparr>pr_tasks := (pr_tasks s)(l := tk), pr_shared := sh\<rparr>)"
| background: "proxy_step pdata net s (s\<lparr>pr_shared := background_step net bg (pr_shared s)\<rparr>)"

text \<open>The start: what \<open>Proxy::new\<close> sets up, with any mirror that has no filter yet.\<close>

definition task_init :: "'b task" where
  "task_init = \<lparr>tk_pc = Idle, tk_queue = []\<rparr>"

definition proxy_init :: "'c mirror \<Rightarrow> 'w \<Rightarrow> instant \<Rightarrow> ('b, 'c, 'w) proxy_sys" where
  "proxy_init m w now =
     \<lparr>pr_tasks = (\<lambda>_. task_init), pr_shared = \<lparr>ps_mirror = m, ps_world = w, ps_now = now, ps_log = []\<rparr>\<rparr>"

abbreviation proxy_start :: "('b, 'c, 'w) proxy_sys \<Rightarrow> bool" where
  "proxy_start s \<equiv> \<exists>p i pin w now. s = proxy_init (mirror_new p i pin) w now"

abbreviation proxy_reach where
  "proxy_reach pdata net \<equiv> reach proxy_start (proxy_step pdata net)"

section \<open>The log\<close>

text \<open>The operations on the filter set that a log contains, oldest first, and the filter set they lead to.\<close>

fun log_ops :: "(instant \<times> ('b, 'c) event) list \<Rightarrow> fs_op list" where
  "log_ops [] = []"
| "log_ops ((t, ev) # older) = log_ops older @ (case ev of FilterOp op \<Rightarrow> [op] | _ \<Rightarrow> [])"

definition filters_at :: "(instant \<times> ('b, 'c) event) list \<Rightarrow> filter_set" where
  "filters_at log = fs_run (log_ops log) filter_set_default"

text \<open>The payloads sent for a source, newest first; the items queued and released on a line, oldest first.\<close>

fun log_sends :: "u8 \<Rightarrow> (instant \<times> ('b, 'c) event) list \<Rightarrow> bytes list" where
  "log_sends source [] = []"
| "log_sends source ((t, ev) # older) =
     (case ev of Sent source' d c \<Rightarrow> if source' = source then [d] else [] | _ \<Rightarrow> []) @ log_sends source older"

fun log_queued :: "line \<Rightarrow> (instant \<times> ('b, 'c) event) list \<Rightarrow> 'b item list" where
  "log_queued l [] = []"
| "log_queued l ((t, ev) # older) =
     log_queued l older @ (case ev of Queued x \<Rightarrow> if item_line x = l then [x] else [] | _ \<Rightarrow> [])"

fun log_released :: "line \<Rightarrow> (instant \<times> ('b, 'c) event) list \<Rightarrow> 'b item list" where
  "log_released l [] = []"
| "log_released l ((t, ev) # older) =
     log_released l older @ (case ev of Released x out \<Rightarrow> if item_line x = l then [x] else [] | _ \<Rightarrow> [])"

text \<open>
  What an event says about the past. An insertion is stamped with the clock; a sweep reads it no later than it
  ends. An item is queued after its datagrams were sent, in order and with no others of its source among them.
  It is released at least the delay after it was queued and is then filtered by the filter set of the moment.
\<close>

fun event_ok :: "'b pdata \<Rightarrow> (instant \<times> ('b, 'c) event) list \<Rightarrow> instant \<Rightarrow> ('b, 'c) event \<Rightarrow> bool" where
  "event_ok pdata older t (FilterOp (Insert now sig)) = (now = t)"
| "event_ok pdata older t (FilterOp (Sweep clk)) = (\<forall>sig. clk sig \<le> t)"
| "event_ok pdata older t (Sent source d c) = True"
| "event_ok pdata older t (Queued x) =
     (take (length (item_datagrams pdata x)) (log_sends (line_source (item_line x)) older) =
      rev (item_datagrams pdata x))"
| "event_ok pdata older t (Released x out) =
     (out = item_filter pdata (filters_at older) x \<and>
      (\<exists>t0. (t0, Queued x) \<in> set older \<and> t0 + PACKET_DELAY \<le> t))"

fun log_ok :: "'b pdata \<Rightarrow> (instant \<times> ('b, 'c) event) list \<Rightarrow> bool" where
  "log_ok pdata [] = True"
| "log_ok pdata ((t, ev) # older) =
     (event_ok pdata older t ev \<and> (\<forall>e \<in> set older. fst e \<le> t) \<and> log_ok pdata older)"

lemma log_ok_append:
  "log_ok pdata (newer @ older) \<Longrightarrow> log_ok pdata older \<and> (\<forall>e \<in> set newer. \<forall>e' \<in> set older. fst e' \<le> fst e)"
proof (induction newer)
  case (Cons e newer)
  then show ?case by (cases e) (metis Un_iff append_Cons fst_conv log_ok.simps(2) set_ConsD set_append)
qed simp

lemma log_ops_append [simp]: "log_ops (newer @ older) = log_ops older @ log_ops newer"
  by (induction newer rule: log_ops.induct) auto

lemma filters_at_step:
  "filters_at ((t, FilterOp op) # log) = fs_step op (filters_at log)"
  "\<forall>op. ev \<noteq> FilterOp op \<Longrightarrow> filters_at ((t, ev) # log) = filters_at log"
  by (auto simp: filters_at_def fs_run_def split: event.splits)

lemma fs_wf_filters_at [simp]: "fs_wf (filters_at log)"
  by (auto simp: filters_at_def)

section \<open>The invariant\<close>

text \<open>
  A task that mirrors an item has sent a first part of its datagrams last; what waits in the queue was queued
  the delay before its release instant; the instant of the release loop is not ahead of the clock; and what was
  queued is what was released followed by the queue.
\<close>

definition mirrored_part :: "'b pdata \<Rightarrow> line \<Rightarrow> (instant \<times> ('b, 'c) event) list \<Rightarrow> 'b item \<Rightarrow> bytes list \<Rightarrow> bool" where
  "mirrored_part pdata l log x ds \<longleftrightarrow> item_line x = l \<and>
     (\<exists>sent. item_datagrams pdata x = sent @ ds \<and> take (length sent) (log_sends (line_source l) log) = rev sent)"

fun pc_ok :: "'b pdata \<Rightarrow> line \<Rightarrow> (instant \<times> ('b, 'c) event) list \<Rightarrow> instant \<Rightarrow> 'b pc \<Rightarrow> bool" where
  "pc_ok pdata l log clock (Mirroring x ds) = mirrored_part pdata l log x ds"
| "pc_ok pdata l log clock (Releasing now) = (now \<le> clock)"
| "pc_ok pdata l log clock _ = True"

definition queue_ok :: "line \<Rightarrow> (instant \<times> ('b, 'c) event) list \<Rightarrow> 'b item delay_queue \<Rightarrow> bool" where
  "queue_ok l log q \<longleftrightarrow> log_queued l log = log_released l log @ map snd q \<and>
     (\<forall>(at, x) \<in> set q. item_line x = l \<and> (\<exists>t0. (t0, Queued x) \<in> set log \<and> at = t0 + PACKET_DELAY))"

definition task_ok :: "'b pdata \<Rightarrow> line \<Rightarrow> (instant \<times> ('b, 'c) event) list \<Rightarrow> instant \<Rightarrow> 'b task \<Rightarrow> bool" where
  "task_ok pdata l log clock tk \<longleftrightarrow> pc_ok pdata l log clock (tk_pc tk) \<and> queue_ok l log (tk_queue tk)"

definition shared_ok :: "'b pdata \<Rightarrow> ('b, 'c, 'w) shared \<Rightarrow> bool" where
  "shared_ok pdata s \<longleftrightarrow> log_ok pdata (ps_log s) \<and> (\<forall>e \<in> set (ps_log s). fst e \<le> ps_now s) \<and>
     ps_filters s = filters_at (ps_log s)"

definition proxy_ok :: "'b pdata \<Rightarrow> ('b, 'c, 'w) proxy_sys \<Rightarrow> bool" where
  "proxy_ok pdata s \<longleftrightarrow> shared_ok pdata (pr_shared s) \<and>
     (\<forall>l. task_ok pdata l (ps_log (pr_shared s)) (ps_now (pr_shared s)) (pr_tasks s l))"

text \<open>Time and foreign events leave a task alone.\<close>

lemma task_ok_later: "task_ok pdata l log clock tk \<Longrightarrow> clock \<le> clock' \<Longrightarrow> task_ok pdata l log clock' tk"
  unfolding task_ok_def by (cases "tk_pc tk") auto

fun foreign :: "line \<Rightarrow> ('b, 'c) event \<Rightarrow> bool" where
  "foreign l (FilterOp op) = True"
| "foreign l (Sent source d c) = (source \<noteq> line_source l \<or> l = BundleLine)"
| "foreign l (Queued x) = (item_line x \<noteq> l)"
| "foreign l (Released x out) = (item_line x \<noteq> l)"

lemma no_datagrams: "item_line x = BundleLine \<Longrightarrow> item_datagrams pdata x = []"
  by (cases x) simp_all

lemma task_ok_foreign:
  assumes "task_ok pdata l log clock tk" and "foreign l ev"
  shows "task_ok pdata l ((t, ev) # log) clock tk"
proof -
  have "queue_ok l ((t, ev) # log) (tk_queue tk)"
    using assms by (cases ev) (fastforce simp: task_ok_def queue_ok_def)+
  moreover have "mirrored_part pdata l ((t, ev) # log) x ds" if "mirrored_part pdata l log x ds" for x ds
    using that assms(2) no_datagrams [of x pdata] by (cases ev) (auto simp: mirrored_part_def)
  ultimately show ?thesis
    using assms(1) by (cases "tk_pc tk") (simp_all add: task_ok_def)
qed

text \<open>What a step of a task can be.\<close>

inductive task_move :: "'b pdata \<Rightarrow> ('c, 'w) net \<Rightarrow> line \<Rightarrow> 'b task \<Rightarrow> ('b, 'c, 'w) shared \<Rightarrow>
    'b task \<Rightarrow> ('b, 'c, 'w) shared \<Rightarrow> bool" for pdata net l where
  quiet: "pc_ok pdata l (ps_log s) (ps_now s) pc \<Longrightarrow> task_move pdata net l tk s (tk\<lparr>tk_pc := pc\<rparr>) s"
| mirror1: "tk_pc tk = Mirroring x (d # ds) \<Longrightarrow>
    task_move pdata net l tk s (tk\<lparr>tk_pc := Mirroring x ds\<rparr>) (send_logged net (line_source l) d s)"
| push: "tk_pc tk = Mirroring x [] \<Longrightarrow> pc = Sweeping \<or> pc = Idle \<Longrightarrow>
    task_move pdata net l tk s (tk\<lparr>tk_pc := pc, tk_queue := tk_queue tk @ [(ps_now s + PACKET_DELAY, x)]\<rparr>)
      (record_event (Queued x) s)"
| sweep: "clk = (\<lambda>sig. ps_now s + min (off sig) d) \<Longrightarrow>
    task_move pdata net l tk s (tk\<lparr>tk_pc := Clock\<rparr>) (record_event (FilterOp (Sweep clk))
      (s\<lparr>ps_mirror := (ps_mirror s)\<lparr>mi_filter_set := fs_sweep clk (ps_filters s)\<rparr>, ps_now := ps_now s + d\<rparr>))"
| release: "tk_pc tk = Releasing now \<Longrightarrow> tk_queue tk = (at, x) # q \<Longrightarrow> at \<le> now \<Longrightarrow>
    pc = Releasing now \<or> pc = Ended \<Longrightarrow>
    task_move pdata net l tk s (tk\<lparr>tk_pc := pc, tk_queue := q\<rparr>)
      (record_event (Released x (item_filter pdata (ps_filters s) x)) s)"

lemma mirrored_nothing: "item_line x = l \<Longrightarrow> mirrored_part pdata l log x (item_datagrams pdata x)"
  by (simp add: mirrored_part_def)

lemma task_step_move:
  assumes "task_step pdata net l act tk s = Some (tk', s')"
  shows "task_move pdata net l tk s tk' s'"
proof (cases "tk_pc tk")
  case Idle
  then show ?thesis
    using assms
    by (cases act)
      (auto simp: task_step.simps mirrored_nothing split: if_splits intro!: task_move.quiet)
next
  case (Mirroring x ds)
  then show ?thesis
    using assms
    by (cases act; cases ds) (auto simp: task_step.simps intro: task_move.mirror1 task_move.push)
next
  case Sweeping
  then show ?thesis
    using assms by (cases act) (auto simp: task_step.simps Let_def intro: task_move.sweep)
next
  case Clock
  then show ?thesis
    using assms by (cases act) (auto simp: task_step.simps intro!: task_move.quiet)
next
  case (Releasing now)
  then show ?thesis
    using assms
    by (cases act; cases "tk_queue tk")
      (auto simp: task_step.simps split: if_splits intro: task_move.release intro!: task_move.quiet)
next
  case Ended
  then show ?thesis using assms by (cases act) (simp_all add: task_step.simps)
qed

lemma record_event_simps [simp]:
  "ps_log (record_event ev s) = (ps_now s, ev) # ps_log s" "ps_now (record_event ev s) = ps_now s"
  "ps_mirror (record_event ev s) = ps_mirror s" "ps_world (record_event ev s) = ps_world s"
  "ps_filters (record_event ev s) = ps_filters s"
  by (simp_all add: record_event_def ps_filters_def)

lemma send_logged_simps [simp]:
  "ps_log (send_logged net source d s) = (ps_now s, Sent source d (mi_conn (ps_mirror s))) # ps_log s"
  "ps_now (send_logged net source d s) = ps_now s" "ps_filters (send_logged net source d s) = ps_filters s"
  by (simp_all add: send_logged_def case_prod_beta ps_filters_def mirror_send_frame(2))

lemma shared_ok_extend:
  assumes "shared_ok pdata s" and "ps_log s' = (ps_now s', ev) # ps_log s" and "ps_now s \<le> ps_now s'"
    and "event_ok pdata (ps_log s) (ps_now s') ev" and "ps_filters s' = filters_at (ps_log s')"
  shows "shared_ok pdata s'"
  using assms unfolding shared_ok_def by force

lemma mirrored_all:
  "mirrored_part pdata l log x [] \<Longrightarrow> event_ok pdata log t (Queued x)"
  by (auto simp: mirrored_part_def)

lemma shared_ok_send:
  assumes "shared_ok pdata s"
  shows "shared_ok pdata (send_logged net source d s)"
  using shared_ok_extend [OF assms, of "send_logged net source d s"] assms
  by (simp add: filters_at_step shared_ok_def)

lemma shared_ok_record:
  assumes "shared_ok pdata s" and "event_ok pdata (ps_log s) (ps_now s) ev" and "\<forall>op. ev \<noteq> FilterOp op"
  shows "shared_ok pdata (record_event ev s)"
  using shared_ok_extend [OF assms(1), of "record_event ev s" ev] assms
  by (simp add: filters_at_step shared_ok_def)

lemma shared_ok_filter_op:
  assumes "shared_ok pdata s" and "event_ok pdata (ps_log s) (ps_now s') (FilterOp op)" and "ps_now s \<le> ps_now s'"
    and "ps_log s' = ps_log s" and "ps_filters s' = fs_step op (ps_filters s)"
  shows "shared_ok pdata (record_event (FilterOp op) s')"
  using shared_ok_extend [OF assms(1), of "record_event (FilterOp op) s'" "FilterOp op"] assms
  by (simp add: filters_at_step shared_ok_def)

lemma task_move_shared:
  assumes "task_move pdata net l tk s tk' s'" and "shared_ok pdata s" and "task_ok pdata l (ps_log s) (ps_now s) tk"
  shows "shared_ok pdata s'"
  using assms
proof (induction rule: task_move.induct)
  case (mirror1 tk x d ds s)
  then show ?case by (simp add: shared_ok_send)
next
  case (push tk x pc s)
  then have "event_ok pdata (ps_log s) (ps_now s) (Queued x)"
    by (intro mirrored_all [of pdata l]) (simp add: task_ok_def)
  then show ?case using push.prems(1) by (simp add: shared_ok_record)
next
  case (sweep clk s off d tk)
  then show ?case by (intro shared_ok_filter_op [OF sweep.prems(1)]) (simp_all add: ps_filters_def)
next
  case (release tk now at x q pc s)
  then have "\<exists>t0. (t0, Queued x) \<in> set (ps_log s) \<and> t0 + PACKET_DELAY \<le> ps_now s"
    by (auto simp: task_ok_def queue_ok_def)
  then show ?case
    using release.prems(1) by (intro shared_ok_record) (simp_all add: shared_ok_def)
qed simp

lemma mirrored_more:
  "mirrored_part pdata l log x (d # ds) \<Longrightarrow> mirrored_part pdata l ((t, Sent (line_source l) d c) # log) x ds"
  unfolding mirrored_part_def by (auto intro: exI [of _ "_ @ [d]"])

lemma queue_ok_sent: "queue_ok l ((t, Sent source d c) # log) q = queue_ok l log q"
  "queue_ok l ((t, FilterOp op) # log) q = queue_ok l log q"
  by (auto simp: queue_ok_def)

lemma task_move_self:
  assumes "task_move pdata net l tk s tk' s'" and "task_ok pdata l (ps_log s) (ps_now s) tk"
  shows "task_ok pdata l (ps_log s') (ps_now s') tk'"
  using assms
proof (induction rule: task_move.induct)
  case (quiet s pc tk)
  then show ?case by (simp add: task_ok_def)
next
  case (mirror1 tk x d ds s)
  then show ?case by (simp add: task_ok_def mirrored_more queue_ok_sent)
next
  case (push tk x pc s)
  then have "item_line x = l" by (simp add: task_ok_def mirrored_part_def)
  with push show ?case by (fastforce simp: task_ok_def queue_ok_def)
next
  case (sweep clk s off d tk)
  then show ?case by (simp add: task_ok_def queue_ok_sent)
next
  case (release tk now at x q pc s)
  then have "item_line x = l" by (simp add: task_ok_def queue_ok_def)
  with release show ?case by (fastforce simp: task_ok_def queue_ok_def)
qed

text \<open>The other lines only see foreign events.\<close>

lemma task_move_foreign:
  assumes "task_move pdata net l tk s tk' s'" and "task_ok pdata l (ps_log s) (ps_now s) tk" and "l' \<noteq> l"
    and "task_ok pdata l' (ps_log s) (ps_now s) tk0"
  shows "task_ok pdata l' (ps_log s') (ps_now s') tk0"
  using assms
proof (induction rule: task_move.induct)
  case (mirror1 tk x d ds s)
  then have "l \<noteq> BundleLine" using no_datagrams [of x pdata] by (auto simp: task_ok_def mirrored_part_def)
  then have "line_source l \<noteq> line_source l' \<or> l' = BundleLine"
    using mirror1.prems(2) by (cases l; cases l') (simp_all add: source_defs)
  then show ?case using mirror1.prems(3) by (simp add: task_ok_foreign)
next
  case (push tk x pc s)
  then have "item_line x \<noteq> l'" by (simp add: task_ok_def mirrored_part_def)
  then show ?case using push.prems(3) by (simp add: task_ok_foreign)
next
  case (sweep clk s off d tk)
  then show ?case by (simp add: task_ok_foreign task_ok_later)
next
  case (release tk now at x q pc s)
  then have "item_line x \<noteq> l'" by (simp add: task_ok_def queue_ok_def)
  then show ?case using release.prems(3) by (simp add: task_ok_foreign)
qed simp

lemma background_ok:
  assumes "shared_ok pdata s"
  shows "shared_ok pdata (background_step net bg s)"
proof (cases bg)
  case (Ingest bs)
  show ?thesis
  proof (cases "length bs = 65 \<and> hd bs = FILTER_TAG")
    case True
    then show ?thesis
      using Ingest shared_ok_filter_op [OF assms, of "s\<lparr>ps_mirror := ingest_filter (ps_now s) bs (ps_mirror s)\<rparr>"
          "Insert (ps_now s) (tl bs)"]
      by (simp add: ps_filters_def ingest_filter_frame(3) fs_run_def)
  next
    case False
    then have "poll_insert (FpDatagram (ps_now s) bs) = []" by simp
    then show ?thesis
      using Ingest assms ingest_filter_eq [of "ps_now s" bs "ps_mirror s"] by (simp del: poll_insert.simps)
  qed
next
  case (Control identity)
  then show ?thesis using assms by (simp add: shared_ok_send)
qed (use assms in \<open>auto simp: shared_ok_def ps_filters_def mirror_set_def\<close>)

lemma background_task_ok:
  assumes "task_ok pdata l (ps_log s) (ps_now s) tk"
  shows "task_ok pdata l (ps_log (background_step net bg s)) (ps_now (background_step net bg s)) tk"
proof (cases bg)
  case (Control identity)
  have "SOURCE_CONTROL \<noteq> line_source l" by (cases l) (simp_all add: source_defs)
  then show ?thesis using Control assms by (simp add: task_ok_foreign)
qed (use assms in \<open>simp_all add: task_ok_foreign task_ok_later\<close>)

interpretation prx: inductive_invariant proxy_start "proxy_step pdata net" "proxy_ok pdata"
  for pdata :: "'b pdata" and net :: "('c, 'w) net"
proof unfold_locales
  fix s :: "('b, 'c, 'w) proxy_sys"
  assume "proxy_start s"
  then show "proxy_ok pdata s"
    by (auto simp: proxy_ok_def proxy_init_def shared_ok_def task_ok_def task_init_def queue_ok_def ps_filters_def
        mirror_new_def filters_at_def)
next
  fix s s' :: "('b, 'c, 'w) proxy_sys"
  assume ok: "proxy_ok pdata s" and step: "proxy_step pdata net s s'"
  from step show "proxy_ok pdata s'"
  proof cases
    case (task l act tk sh)
    from task_step_move [OF task(2)] have move: "task_move pdata net l (pr_tasks s l) (pr_shared s) tk sh" .
    show ?thesis
      using ok task_move_shared [OF move] task_move_self [OF move] task_move_foreign [OF move]
      by (simp add: task(1) proxy_ok_def)
  next
    case (background bg)
    then show ?thesis using ok by (simp add: proxy_ok_def background_ok background_task_ok)
  qed
qed

section \<open>Units\<close>

text \<open>The units of an item, over the three kinds; the three release filters together are a release filter.\<close>

datatype 'b item_unit = LivePacket "'b packet" | BePacket proto_packet | BeBundle bundle_uuid

fun item_units :: "'b item \<Rightarrow> 'b item_unit list" where
  "item_units (BatchItem batch) = map LivePacket (batch_units batch)"
| "item_units (PacketsItem resp) = map BePacket (be_packet_units resp)"
| "item_units (BundlesItem resp) = map BeBundle (bb_bundles resp)"

fun unit_sigs :: "'b pdata \<Rightarrow> 'b item_unit \<Rightarrow> signature set" where
  "unit_sigs pdata (LivePacket p) = batch_unit_sigs pdata p"
| "unit_sigs pdata (BePacket p) = be_packet_unit_sigs p"
| "unit_sigs pdata (BeBundle bu) = be_bundle_unit_sigs bu"

interpretation items: release_filter "item_filter pdata" item_units "unit_sigs pdata" for pdata
proof unfold_locales
  fix fs :: filter_set and x :: "'a item"
  show "item_filter pdata fs x = x" if "fs_is_empty fs"
    using that by (cases x) (simp_all add: bank.filt_empty bep.filt_empty beb.filt_empty)
  show "item_units (item_filter pdata fs x) =
      filter (\<lambda>u. \<forall>sig \<in> unit_sigs pdata u. \<not> fs_blocks fs sig) (item_units x)" if "\<not> fs_is_empty fs"
    using that by (cases x) (simp_all add: bank.units_filt bep.units_filt beb.units_filt filter_map comp_def)
qed

text \<open>A log blocks a signature if an insertion of it is in force.\<close>

definition log_blocks :: "(instant \<times> ('b, 'c) event) list \<Rightarrow> signature \<Rightarrow> bool" where
  "log_blocks log sig \<longleftrightarrow> (\<exists>t pre post. log_ops log = pre @ Insert t sig # post \<and> in_force sig t post)"

lemma filters_at_blocks: "fs_blocks (filters_at log) sig \<longleftrightarrow> log_blocks log sig"
  by (simp add: filters_at_def log_blocks_def fs_blocks_in_force)

text \<open>What a filter of a log that is not yet two seconds old does.\<close>

lemma log_ok_no_expiry:
  assumes "log_ok pdata (newer @ rest)" and "\<forall>e \<in> set newer. t \<le> fst e \<and> fst e < t + TTL"
  shows "no_expiry sig t (log_ops newer)"
  using assms
proof (induction newer)
  case (Cons e newer)
  obtain t' ev where e: "e = (t', ev)" by force
  have "no_expiry sig t (log_ops newer)" using Cons e by simp
  moreover have "no_expiry sig t (xs @ ys) \<longleftrightarrow> no_expiry sig t xs \<and> no_expiry sig t ys" for xs ys
    by (induction xs rule: no_expiry.induct) auto
  moreover have "no_expiry sig t [op]" if "ev = FilterOp op" for op
    using Cons.prems that e by (cases op) (auto intro: le_less_trans)
  ultimately show ?case using e by (cases ev) simp_all
qed simp

lemma fresh_filter_blocks:
  assumes "log_ok pdata ((t', ev) # log)" and "(t, FilterOp (Insert t sig)) \<in> set log" and "t' < t + TTL"
  shows "log_blocks log sig"
proof -
  obtain newer older where log: "log = newer @ (t, FilterOp (Insert t sig)) # older"
    using assms(2) by (meson split_list)
  have ok: "log_ok pdata (newer @ (t, FilterOp (Insert t sig)) # older)" and times: "\<forall>e \<in> set log. fst e \<le> t'"
    using assms(1) by (simp_all add: log)
  have "\<forall>e \<in> set newer. t \<le> fst e \<and> fst e < t + TTL"
  proof
    fix e assume e: "e \<in> set newer"
    then have "fst e \<le> t'" using times by (simp add: log)
    then show "t \<le> fst e \<and> fst e < t + TTL" using log_ok_append [OF ok] e assms(3) by simp
  qed
  with ok have "no_expiry sig t (log_ops newer)" by (rule log_ok_no_expiry)
  then have "fs_blocks (fs_run (log_ops newer) (fs_insert t sig (filters_at older))) sig"
    by (intro fs_run_keeps_blocked) simp_all
  then show ?thesis
    by (simp add: filters_at_blocks [symmetric] log filters_at_def fs_run_def)
qed

lemma reach_log_ok:
  assumes "proxy_reach pdata net s" and "ps_log (pr_shared s) = newer @ older"
  shows "log_ok pdata older"
proof -
  have "log_ok pdata (newer @ older)"
    using prx.inv_reach [OF assms(1)] assms(2) by (simp only: proxy_ok_def shared_ok_def)
  then show ?thesis using log_ok_append by blast
qed

section \<open>An uninterrupted pass\<close>

text \<open>
  A task that is not interrupted behaves as the loops of \<open>Delay\<close>. \<open>run_actions\<close> is a sequence of actions of one
  task; \<open>line_sim\<close> relates the state of a loop with the task and the shared data.
\<close>

fun run_actions :: "'b pdata \<Rightarrow> ('c, 'w) net \<Rightarrow> line \<Rightarrow> 'b action list \<Rightarrow> 'b task \<Rightarrow> ('b, 'c, 'w) shared \<Rightarrow>
    ('b task \<times> ('b, 'c, 'w) shared) option" where
  "run_actions pdata net l [] tk s = Some (tk, s)"
| "run_actions pdata net l (a # acts) tk s =
     (case task_step pdata net l a tk s of None \<Rightarrow> None | Some (tk', s') \<Rightarrow> run_actions pdata net l acts tk' s')"

lemma run_actions_append:
  "run_actions pdata net l (as @ bs) tk s =
     (case run_actions pdata net l as tk s of None \<Rightarrow> None | Some (tk', s') \<Rightarrow> run_actions pdata net l bs tk' s')"
  by (induction as arbitrary: tk s) (simp_all split: option.splits)

lemma run_actions_steps:
  "run_actions pdata net l acts (pr_tasks s l) (pr_shared s) = Some (tk, sh) \<Longrightarrow>
   (proxy_step pdata net)\<^sup>*\<^sup>* s (s\<lparr>pr_tasks := (pr_tasks s)(l := tk), pr_shared := sh\<rparr>)"
proof (induction acts arbitrary: s)
  case Nil
  then have "tk = pr_tasks s l" and "sh = pr_shared s" by simp_all
  then have "s\<lparr>pr_tasks := (pr_tasks s)(l := tk), pr_shared := sh\<rparr> = s" by (simp only: fun_upd_triv) simp
  then show ?case by (simp only: rtranclp.rtrancl_refl)
next
  case (Cons a acts)
  then obtain tk1 sh1 where step: "task_step pdata net l a (pr_tasks s l) (pr_shared s) = Some (tk1, sh1)"
    and rest: "run_actions pdata net l acts tk1 sh1 = Some (tk, sh)"
    by (auto split: option.splits)
  let ?s1 = "s\<lparr>pr_tasks := (pr_tasks s)(l := tk1), pr_shared := sh1\<rparr>"
  have "proxy_step pdata net s ?s1" using step by (rule proxy_step.task)
  moreover have "run_actions pdata net l acts (pr_tasks ?s1 l) (pr_shared ?s1) = Some (tk, sh)"
    using rest by simp
  note Cons.IH [OF this]
  moreover have "?s1\<lparr>pr_tasks := (pr_tasks ?s1)(l := tk), pr_shared := sh\<rparr> =
      s\<lparr>pr_tasks := (pr_tasks s)(l := tk), pr_shared := sh\<rparr>"
    by simp
  ultimately show ?case by (metis converse_rtranclp_into_rtranclp)
qed

fun log_outs :: "line \<Rightarrow> (instant \<times> ('b, 'c) event) list \<Rightarrow> ('b item \<times> 'b item) list" where
  "log_outs l [] = []"
| "log_outs l ((t, ev) # older) =
     log_outs l older @ (case ev of Released x out \<Rightarrow> if item_line x = l then [(x, out)] else [] | _ \<Rightarrow> [])"

definition line_sim :: "('a \<Rightarrow> 'b item) \<Rightarrow> line \<Rightarrow> ('a, 'c mirror \<times> 'w) delay_st \<Rightarrow> 'b task \<Rightarrow>
    ('b, 'c, 'w) shared \<Rightarrow> bool" where
  "line_sim emb l st tk s \<longleftrightarrow> tk_queue tk = map (\<lambda>(at, x). (at, emb x)) (dl_queue st) \<and>
     dl_shared st = (ps_mirror s, ps_world s) \<and>
     log_outs l (ps_log s) = map (\<lambda>si. (emb (si_item si), emb (si_out si))) (dl_sent st)"

lemma run_mirroring:
  assumes "tk_pc tk = Mirroring x ds" and "line_sim emb l st tk s"
  shows "\<exists>tk' s'. run_actions pdata net l (replicate (length ds) Mirror1) tk s = Some (tk', s') \<and>
    tk_pc tk' = Mirroring x [] \<and> ps_now s' = ps_now s \<and>
    line_sim emb l (dl_interfere (fold (mirror_send net (line_source l)) ds) st) tk' s'"
  using assms
proof (induction ds arbitrary: tk s st)
  case Nil
  then show ?case by (simp add: dl_interfere_def)
next
  case (Cons d ds)
  let ?tk = "tk\<lparr>tk_pc := Mirroring x ds\<rparr>" and ?s = "send_logged net (line_source l) d s"
    and ?st = "dl_interfere (mirror_send net (line_source l) d) st"
  have "line_sim emb l ?st ?tk ?s"
    using Cons.prems(2) by (simp add: line_sim_def dl_interfere_def send_logged_def case_prod_beta)
  from Cons.IH [OF _ this] show ?case
    using Cons.prems(1) by (simp add: task_step.simps) (simp add: dl_interfere_def)
qed

text \<open>The release loop of a task against the release loop of either kind of delay line.\<close>

lemma line_sim_pc [simp]: "line_sim emb l st (tk\<lparr>tk_pc := pc\<rparr>) s = line_sim emb l st tk s"
  by (simp add: line_sim_def)

lemma front_due_sim: "line_sim emb l st tk s \<Longrightarrow> front_due now (tk_queue tk) = front_due now (dl_queue st)"
  by (cases "dl_queue st") (auto simp: line_sim_def front_due_def)

lemma run_end_release:
  assumes "tk_pc tk = Releasing now" and "\<not> front_due now (dl_queue st)" and "line_sim emb l st tk s"
  shows "\<exists>acts tk' s'. run_actions pdata net l acts tk s = Some (tk', s') \<and> tk_pc tk' = Idle \<and>
    line_sim emb l st tk' s'"
proof -
  have "run_actions pdata net l [EndRelease] tk s = Some (tk\<lparr>tk_pc := Idle\<rparr>, s)"
    using assms front_due_sim [OF assms(3)] by (simp add: task_step.simps)
  then show ?thesis using assms(3) by (intro exI conjI) (assumption, simp_all)
qed

lemma run_release:
  assumes "tk_pc tk = Releasing now" and "line_sim emb l st tk s"
    and "\<And>m x. item_filter pdata (mi_filter_set m) (emb x) = emb (filt (m, ps_world s) x)"
    and "\<And>x. item_line (emb x) = l" and "\<And>i. ri_before_release inp i = (\<lambda>s. s)" and "\<And>i. ri_send_ok inp i"
    and "ri_t2 inp = now"
  shows "\<exists>acts tk' s'. run_actions pdata net l acts tk s = Some (tk', s') \<and> tk_pc tk' = Idle \<and>
    line_sim emb l (relayer_release filt inp i st) tk' s'"
  using assms
proof (induction "dl_queue st" arbitrary: tk s st i)
  case Nil
  then have "\<not> front_due now (dl_queue st)" by (simp add: front_due_def)
  then have "relayer_release filt inp i st = st" using Nil.prems(7) by (subst relayer_release.simps) simp
  then show ?case
    using run_end_release [OF Nil.prems(1) \<open>\<not> front_due now (dl_queue st)\<close> Nil.prems(2)] by simp
next
  case (Cons e q)
  obtain at x where e: "e = (at, x)" by force
  have q: "dl_queue st = (at, x) # q" using Cons.hyps(2) e by simp
  show ?case
  proof (cases "at \<le> now")
    case True
    let ?st = "dl_pop filt now (dl_interfere (\<lambda>s. s) st)"
    let ?tk = "tk\<lparr>tk_queue := map (\<lambda>(at, x). (at, emb x)) q\<rparr>"
    let ?s = "record_event (Released (emb x) (item_filter pdata (ps_filters s) (emb x))) s"
    have step: "task_step pdata net l (Release True) tk s = Some (?tk, ?s)"
      using Cons.prems(1,2) q True by (simp add: task_step.simps line_sim_def)
    have "line_sim emb l ?st ?tk ?s"
      using Cons.prems(2-4) q by (simp add: line_sim_def dl_pop_def dl_interfere_def ps_filters_def)
    moreover have "q = dl_queue ?st" by (simp add: q dl_pop_def)
    ultimately have "\<exists>acts tk' s'. run_actions pdata net l acts ?tk ?s = Some (tk', s') \<and> tk_pc tk' = Idle \<and>
        line_sim emb l (relayer_release filt inp (Suc i) ?st) tk' s'"
      using Cons.prems by (intro Cons.hyps(1)) simp_all
    moreover have "relayer_release filt inp i st = relayer_release filt inp (Suc i) ?st"
      using Cons.prems(5-7) q True by (subst relayer_release.simps) (simp add: front_due_def)
    ultimately show ?thesis
      using step by (metis (no_types, lifting) option.simps(5) prod.case run_actions.simps(2))
  next
    case False
    then have nd: "\<not> front_due now (dl_queue st)" using q by (simp add: front_due_def)
    then have "relayer_release filt inp i st = st" using Cons.prems(7) by (subst relayer_release.simps) simp
    then show ?thesis using run_end_release [OF Cons.prems(1) nd Cons.prems(2)] by simp
  qed
qed

lemma run_sweep:
  assumes "tk_pc tk = Sweeping" and "line_sim emb l st tk s"
  shows "\<exists>tk' s'. run_actions pdata net l [DoSweep off d, ReadClock] tk s = Some (tk', s') \<and>
    tk_pc tk' = Releasing (ps_now s + d) \<and>
    line_sim emb l (dl_interfere (sweep_shared (\<lambda>sig. ps_now s + min (off sig) d)) st) tk' s'"
  using assms
  by (simp add: task_step.simps Let_def line_sim_def dl_interfere_def sweep_shared_def ps_filters_def)

lemma run_receive:
  assumes "tk_pc tk = Idle" and "line_sim emb l st tk s" and "item_line (emb x) = l"
  shows "\<exists>acts tk' s'. run_actions pdata net l acts tk s = Some (tk', s') \<and>
    tk_pc tk' = (if l = TpuLine then Sweeping else Idle) \<and> ps_now s' = ps_now s \<and>
    line_sim emb l (dl_push PACKET_DELAY (ps_now s) x
      (dl_interfere (fold (mirror_send net (line_source l)) (item_datagrams pdata (emb x))) st)) tk' s'"
proof -
  let ?tk = "tk\<lparr>tk_pc := Mirroring (emb x) (item_datagrams pdata (emb x))\<rparr>"
  have recv: "run_actions pdata net l [Recv (emb x)] tk s = Some (?tk, s)"
    using assms by (simp add: task_step.simps)
  obtain tk1 s1 where mirror: "run_actions pdata net l
      (replicate (length (item_datagrams pdata (emb x))) Mirror1) ?tk s = Some (tk1, s1)"
    and tk1: "tk_pc tk1 = Mirroring (emb x) []" "ps_now s1 = ps_now s"
    and sim: "line_sim emb l (dl_interfere (fold (mirror_send net (line_source l))
      (item_datagrams pdata (emb x))) st) tk1 s1"
    using run_mirroring [of ?tk "emb x" _ emb l st s pdata net] assms(2) by auto
  let ?tk2 = "tk1\<lparr>tk_pc := (if l = TpuLine then Sweeping else Idle),
      tk_queue := tk_queue tk1 @ [(ps_now s1 + PACKET_DELAY, emb x)]\<rparr>"
  have push: "run_actions pdata net l [Push] tk1 s1 = Some (?tk2, record_event (Queued (emb x)) s1)"
    using tk1 by (simp add: task_step.simps)
  have "run_actions pdata net l ([Recv (emb x)] @
      replicate (length (item_datagrams pdata (emb x))) Mirror1 @ [Push]) tk s =
    Some (?tk2, record_event (Queued (emb x)) s1)"
    unfolding run_actions_append recv using mirror push by (simp add: run_actions_append)
  moreover have "line_sim emb l (dl_push PACKET_DELAY (ps_now s) x
      (dl_interfere (fold (mirror_send net (line_source l)) (item_datagrams pdata (emb x))) st))
      ?tk2 (record_event (Queued (emb x)) s1)"
    using sim tk1(2) by (simp add: line_sim_def dl_push_def dl_interfere_def)
  ultimately show ?thesis using tk1(2) by (intro exI conjI) (assumption, simp_all)
qed

lemma run_actions_trans:
  assumes "run_actions pdata net l as tk s = Some (tk1, s1)"
    and "\<exists>acts tk' s'. run_actions pdata net l acts tk1 s1 = Some (tk', s') \<and> P tk' s'"
  shows "\<exists>acts tk' s'. run_actions pdata net l acts tk s = Some (tk', s') \<and> P tk' s'"
proof -
  obtain bs tk' s' where "run_actions pdata net l bs tk1 s1 = Some (tk', s')" "P tk' s'" using assms(2) by blast
  then have "run_actions pdata net l (as @ bs) tk s = Some (tk', s')" "P tk' s'"
    using assms(1) by (simp_all add: run_actions_append)
  then show ?thesis by blast
qed

text \<open>A pass of the TPU thread in which nobody interferes and every send succeeds.\<close>

definition solo_pass :: "'a recv_timeout \<Rightarrow> instant \<Rightarrow> (signature \<Rightarrow> duration) \<Rightarrow> duration \<Rightarrow> ('a, 's) relayer_in" where
  "solo_pass r now off d = \<lparr>ri_exit = False, ri_t0 = now, ri_recv = r, ri_t1 = now,
     ri_clk = (\<lambda>sig. now + min (off sig) d), ri_t2 = now + d, ri_send_ok = (\<lambda>_. True),
     ri_before_mirror = (\<lambda>s. s), ri_before_sweep = (\<lambda>s. s), ri_before_release = (\<lambda>_ s. s)\<rparr>"

lemma run_sweep_release:
  assumes "tk_pc tk = Sweeping" and "line_sim BatchItem TpuLine st tk s"
  shows "\<exists>acts tk' s'. run_actions pdata net TpuLine acts tk s = Some (tk', s') \<and> tk_pc tk' = Idle \<and>
    line_sim BatchItem TpuLine (relayer_release (discard_shared pdata) (solo_pass r (ps_now s) off d) 0
      (dl_interfere (sweep_shared (\<lambda>sig. ps_now s + min (off sig) d)) st)) tk' s'"
proof -
  obtain tk1 s1 where sweep: "run_actions pdata net TpuLine [DoSweep off d, ReadClock] tk s = Some (tk1, s1)"
    "tk_pc tk1 = Releasing (ps_now s + d)"
    "line_sim BatchItem TpuLine (dl_interfere (sweep_shared (\<lambda>sig. ps_now s + min (off sig) d)) st) tk1 s1"
    using run_sweep [OF assms] by blast
  show ?thesis
    by (rule run_actions_trans [OF sweep(1)], rule run_release [OF sweep(2,3)])
      (simp_all add: solo_pass_def discard_shared_def)
qed

lemma interfere_id [simp]: "dl_interfere (\<lambda>s. s) st = st"
  by (simp add: dl_interfere_def)



section \<open>The block engine lines\<close>

text \<open>A poll of \<open>delay_forward\<close> in which nobody interferes; its release loop is the one of the TPU thread.\<close>

definition solo_poll :: "bool \<Rightarrow> 'a option \<Rightarrow> instant \<Rightarrow> ('a, 's) forward_in" where
  "solo_poll timer r now = \<lparr>fi_shutdown = False, fi_timer = timer, fi_now = now, fi_recv = map_option BcOk r,
     fi_t = now, fi_before_receive = (\<lambda>s. s), fi_before_release = (\<lambda>_ s. s)\<rparr>"

lemma queue_pop: "dl_queue st = (at, x) # q \<Longrightarrow> dl_queue (dl_pop filt now st) = q"
  by (simp add: dl_pop_def)

lemma forward_release_solo:
  "forward_release filt (solo_poll timer r now) i st = relayer_release filt (solo_pass RtTimeout now off 0) i st"
proof (induction "dl_queue st" arbitrary: i st)
  case Nil
  then show ?case by (subst forward_release.simps, subst relayer_release.simps) (simp add: front_due_def)
next
  case (Cons e q)
  then have "q = dl_queue (dl_pop filt now st)" by (cases e) (metis queue_pop)
  from Cons.hyps(1) [OF this] show ?case
    by (subst forward_release.simps, subst relayer_release.simps) (simp add: solo_poll_def solo_pass_def)
qed

lemma poll_refines:
  assumes "tk_pc tk = Idle" and "line_sim emb l st tk s" and "\<not> dl_done st" and "l \<noteq> TpuLine"
    and "\<And>m x. item_filter pdata (mi_filter_set m) (emb x) = emb (on_release (m, ps_world s) x)"
    and "\<And>x. item_line (emb x) = l"
    and "\<And>x. on_receive x = fold (mirror_send net (line_source l)) (item_datagrams pdata (emb x))"
    and "timer \<Longrightarrow> front_due (ps_now s) (dl_queue st)"
  shows "\<exists>acts tk' s'. run_actions pdata net l acts tk s = Some (tk', s') \<and> tk_pc tk' = Idle \<and>
    line_sim emb l (delay_forward_step PACKET_DELAY on_receive on_release (solo_poll timer r (ps_now s)) st) tk' s'"
proof (cases "dl_queue st \<noteq> [] \<and> timer")
  case True
  then have due: "front_due (ps_now s) (tk_queue tk)" using assms(8) front_due_sim [OF assms(2)] by simp
  have wake: "run_actions pdata net l [Wake, ReadClock] tk s = Some (tk\<lparr>tk_pc := Releasing (ps_now s)\<rparr>, s)"
    using assms(1,4) due by (simp add: task_step.simps)
  have "delay_forward_step PACKET_DELAY on_receive on_release (solo_poll timer r (ps_now s)) st =
      relayer_release on_release (solo_pass RtTimeout (ps_now s) (\<lambda>_. 0) 0) 0 st"
    using True assms(3) forward_release_solo [of on_release timer r "ps_now s"]
    by (simp add: delay_forward_step_def) (simp add: solo_poll_def)
  then show ?thesis
    using run_actions_trans [OF wake run_release [where st = st and emb = emb and filt = on_release and i = 0
          and inp = "solo_pass RtTimeout (ps_now s) (\<lambda>_. 0) 0"]] assms
    by (simp add: solo_pass_def)
next
  case False
  show ?thesis
  proof (cases r)
    case None
    then have "delay_forward_step PACKET_DELAY on_receive on_release (solo_poll timer r (ps_now s)) st = st"
      using False assms(3) by (auto simp: delay_forward_step_def solo_poll_def)
    then show ?thesis
      using assms(1,2) by (intro exI [of _ "[]"] exI [of _ tk] exI [of _ s]) simp
  next
    case (Some x)
    then have "delay_forward_step PACKET_DELAY on_receive on_release (solo_poll timer r (ps_now s)) st =
        dl_push PACKET_DELAY (ps_now s) x (dl_interfere (on_receive x) st)"
      using False assms(3) by (auto simp: delay_forward_step_def solo_poll_def)
    then show ?thesis
      using run_receive [OF assms(1,2,6), of pdata net x] assms(4,7) by auto
  qed
qed

text \<open>
  The same for the two tasks of the block engine: every poll of \<open>forward_packets_step\<close> and of
  \<open>forward_bundles_step\<close> without interference is a sequence of steps of the system.
\<close>

theorem proxy_poll_refines:
  "tk_pc (pr_tasks s PacketLine) = Idle \<Longrightarrow> \<not> dl_done st \<Longrightarrow>
   line_sim PacketsItem PacketLine st (pr_tasks s PacketLine) (pr_shared s) \<Longrightarrow>
   (timer \<Longrightarrow> front_due (ps_now (pr_shared s)) (dl_queue st)) \<Longrightarrow>
   \<exists>tk sh. (proxy_step pdata net)\<^sup>*\<^sup>* s (s\<lparr>pr_tasks := (pr_tasks s)(PacketLine := tk), pr_shared := sh\<rparr>) \<and>
     tk_pc tk = Idle \<and>
     line_sim PacketsItem PacketLine (forward_packets_step net (solo_poll timer r (ps_now (pr_shared s))) st) tk sh"
  "tk_pc (pr_tasks s BundleLine) = Idle \<Longrightarrow> \<not> dl_done st' \<Longrightarrow>
   line_sim BundlesItem BundleLine st' (pr_tasks s BundleLine) (pr_shared s) \<Longrightarrow>
   (timer \<Longrightarrow> front_due (ps_now (pr_shared s)) (dl_queue st')) \<Longrightarrow>
   \<exists>tk sh. (proxy_step pdata net)\<^sup>*\<^sup>* s (s\<lparr>pr_tasks := (pr_tasks s)(BundleLine := tk), pr_shared := sh\<rparr>) \<and>
     tk_pc tk = Idle \<and>
     line_sim BundlesItem BundleLine (forward_bundles_step (solo_poll timer r' (ps_now (pr_shared s))) st') tk sh"
proof -
  have "mirror_be_packets net x = fold (mirror_send net SOURCE_BLOCKENGINE) (map pp_data (be_packet_units x))" for x
    by (rule ext) (rule mirror_be_packets_eq)
  then show "\<exists>tk sh. (proxy_step pdata net)\<^sup>*\<^sup>* s (s\<lparr>pr_tasks := (pr_tasks s)(PacketLine := tk), pr_shared := sh\<rparr>) \<and>
     tk_pc tk = Idle \<and>
     line_sim PacketsItem PacketLine (forward_packets_step net (solo_poll timer r (ps_now (pr_shared s))) st) tk sh"
    if "tk_pc (pr_tasks s PacketLine) = Idle" "\<not> dl_done st"
      "line_sim PacketsItem PacketLine st (pr_tasks s PacketLine) (pr_shared s)"
      "timer \<Longrightarrow> front_due (ps_now (pr_shared s)) (dl_queue st)"
    using poll_refines [OF that(1,3,2) _ _ _ _ that(4), where pdata = pdata and net = net and r = r
        and on_release = "\<lambda>mw. filter_be_packets (mi_filter_set (fst mw))" and on_receive = "mirror_be_packets net"] run_actions_steps [of pdata net PacketLine _ s]
    unfolding forward_packets_step_def by (simp) blast
  show "\<exists>tk sh. (proxy_step pdata net)\<^sup>*\<^sup>* s (s\<lparr>pr_tasks := (pr_tasks s)(BundleLine := tk), pr_shared := sh\<rparr>) \<and>
     tk_pc tk = Idle \<and>
     line_sim BundlesItem BundleLine (forward_bundles_step (solo_poll timer r' (ps_now (pr_shared s))) st') tk sh"
    if "tk_pc (pr_tasks s BundleLine) = Idle" "\<not> dl_done st'"
      "line_sim BundlesItem BundleLine st' (pr_tasks s BundleLine) (pr_shared s)"
      "timer \<Longrightarrow> front_due (ps_now (pr_shared s)) (dl_queue st')"
    using poll_refines [OF that(1,3,2) _ _ _ _ that(4), where pdata = pdata and net = net and r = r'
        and on_release = "\<lambda>mw. filter_be_bundles (mi_filter_set (fst mw))" and on_receive = "\<lambda>_ mw. mw"] run_actions_steps [of pdata net BundleLine _ s]
    unfolding forward_bundles_step_def by (simp add: fun_eq_iff) blast
qed

section \<open>The tasks of a connection are the background\<close>

text \<open>
  Every poll of the select of \<open>Connection\<close> does to the mirror what steps of the background do, if datagrams are
  stamped with the clock: a datagram is an \<open>Ingest\<close>, a tick of the control task a \<open>Control\<close>, and the writer of
  bundles counts.
\<close>

fun background_of :: "'e encoder \<Rightarrow> ('c, 'w, 'r) serving \<Rightarrow> 'r serve_event \<Rightarrow> 'c background list" where
  "background_of enc c (SeFilters (FpDatagram now bs)) = [Ingest bs]"
| "background_of enc c (SeControl (CpTick (Some identity))) = [Control identity]"
| "background_of enc c (SeOut ev) =
     map (\<lambda>r. CountStat (EvBundlesSent (of_nat (length (bb_bundles r)))))
       (drop (length (bo_written (cn_out c))) (bo_written (out_next enc ev (cn_out c))))"
| "background_of enc c _ = []"

fun on_clock :: "instant \<Rightarrow> 'r serve_event \<Rightarrow> bool" where
  "on_clock now (SeFilters (FpDatagram now' bs)) = (now' = now)"
| "on_clock now (SeOther op) = False"
| "on_clock now _ = True"

lemma record_events_mirror:
  "ps_mirror (fold (\<lambda>op. record_event (FilterOp op)) ops s) = ps_mirror s"
  "ps_world (fold (\<lambda>op. record_event (FilterOp op)) ops s) = ps_world s"
  by (induction ops arbitrary: s) simp_all

lemma count_bundles_background:
  "fold (background_step net) (map (\<lambda>r. CountStat (EvBundlesSent (of_nat (length (bb_bundles r))))) rs) s =
   s\<lparr>ps_mirror := (ps_mirror s)\<lparr>mi_stats := (mi_stats (ps_mirror s))\<lparr>
     bundles_sent := bundles_sent (mi_stats (ps_mirror s)) + n_bundles rs\<rparr>\<rparr>\<rparr>"
  by (induction rs arbitrary: s) (simp_all add: n_bundles_def add.assoc)

theorem connection_background:
  assumes "on_clock (ps_now s) ev" and "cn_mirror c = ps_mirror s" and "cn_world c = ps_world s"
  shows "ps_mirror (fold (background_step net) (background_of enc c ev) s) = cn_mirror (conn_next net enc ev c) \<and>
    ps_world (fold (background_step net) (background_of enc c ev) s) = cn_world (conn_next net enc ev c)"
proof (cases "(net, enc, ev, c)" rule: conn_step.cases)
  case (4 net' enc' now bs c')
  then show ?thesis using assms by (simp add: record_events_mirror)
next
  case (7 net' enc' oev c')
  obtain new where new: "bo_written (fst (out_step enc oev (cn_out c, mi_stats (cn_mirror c)))) = bo_written (cn_out c) @ new"
    "snd (out_step enc oev (cn_out c, mi_stats (cn_mirror c))) =
      (mi_stats (cn_mirror c))\<lparr>bundles_sent := bundles_sent (mi_stats (cn_mirror c)) + n_bundles new\<rparr>"
    using out_step_counts by blast
  then have "bo_written (out_next enc oev (cn_out c)) = bo_written (cn_out c) @ new"
    by (simp add: out_step_next)
  then show ?thesis
    using 7 assms(2,3) new(2) by (simp add: case_prod_beta count_bundles_background)
next
  case (9 net' enc' identity c')
  then show ?thesis using assms by (simp add: send_logged_def set_shared_def case_prod_beta)
qed (use assms in simp_all)

section \<open>A run\<close>

text \<open>
  A run for the witnesses: a filter arrives at 0, then a batch of two packets, one of them with that signature; the
  batch is mirrored and queued at 0 and released 100 ms later.
\<close>

definition px_batch :: "bytes item" where
  "px_batch = BatchItem [[packet_example (replicate 65 7), packet_example (replicate 65 9)]]"

definition px_first :: "bytes action list" where
  "px_first = [Recv px_batch, Mirror1, Mirror1, Push, DoSweep (\<lambda>_. 0) 0, ReadClock, EndRelease]"

definition px_second :: "bytes action list" where
  "px_second = [Wake, DoSweep (\<lambda>_. 0) 0, ReadClock, Release True]"

abbreviation px_run where
  "px_run \<equiv> run_actions pdata_example net_example TpuLine"

definition px_start :: "(bytes, unit, unit) proxy_sys" where
  "px_start = proxy_init mirror_example () 0"

definition px_filtered :: "(bytes, unit, unit) proxy_sys" where
  "px_filtered = px_start\<lparr>pr_shared := background_step net_example (Ingest (FILTER_TAG # replicate 64 7)) (pr_shared px_start)\<rparr>"

lemma px_datagrams: "item_datagrams pdata_example px_batch = [replicate 65 7, replicate 65 9]"
  by (simp add: px_batch_def live_data_def batch_units_def pdata_example_def packet_example_def meta_example_def
      map_filter_simps)

lemma px_first_run:
  "\<exists>tk sh. px_run px_first (pr_tasks px_filtered TpuLine) (pr_shared px_filtered) = Some (tk, sh) \<and>
     tk_pc tk = Idle \<and> tk_queue tk = [(PACKET_DELAY, px_batch)] \<and> ps_now sh = 0 \<and>
     (0, FilterOp (Insert 0 (replicate 64 7))) \<in> set (ps_log sh)"
proof -
  have "item_line px_batch = TpuLine" by (simp add: px_batch_def)
  moreover have "0 < PACKET_DELAY" by (simp add: PACKET_DELAY_def from_millis_def)
  ultimately show ?thesis
    by (simp add: px_first_def task_step.simps px_datagrams px_filtered_def px_start_def proxy_init_def task_init_def
        front_due_def Let_def)
qed

lemma px_second_run:
  assumes "tk_pc tk = Idle" and "tk_queue tk = [(PACKET_DELAY, px_batch)]" and "ps_now sh = 0"
  shows "\<exists>tk' sh' out older. px_run px_second tk (background_step net_example (Pass PACKET_DELAY) sh) = Some (tk', sh') \<and>
    ps_log sh' = (PACKET_DELAY, Released px_batch out) # older \<and> set (ps_log sh) \<subseteq> set older"
  using assms by (simp add: px_second_def task_step.simps Let_def) blast

lemma px_reach:
  "\<exists>(s :: (bytes, unit, unit) proxy_sys) out older. proxy_reach pdata_example net_example s \<and>
     ps_log (pr_shared s) = [] @ (PACKET_DELAY, Released px_batch out) # older \<and>
     (0, FilterOp (Insert 0 (replicate 64 7))) \<in> set older"
proof -
  let ?steps = "(proxy_step pdata_example net_example)\<^sup>*\<^sup>*"
  have init: "proxy_reach pdata_example net_example px_start"
    unfolding px_start_def mirror_example_def by (rule reach_init) blast
  obtain tk sh where run1: "px_run px_first (pr_tasks px_filtered TpuLine) (pr_shared px_filtered) = Some (tk, sh)"
    and idle: "tk_pc tk = Idle" "tk_queue tk = [(PACKET_DELAY, px_batch)]" "ps_now sh = 0"
    and ins: "(0, FilterOp (Insert 0 (replicate 64 7))) \<in> set (ps_log sh)"
    using px_first_run by blast
  define s1 where "s1 = px_filtered\<lparr>pr_tasks := (pr_tasks px_filtered)(TpuLine := tk), pr_shared := sh\<rparr>"
  define s2 where "s2 = s1\<lparr>pr_shared := background_step net_example (Pass PACKET_DELAY) (pr_shared s1)\<rparr>"
  have "?steps px_start px_filtered" unfolding px_filtered_def by (blast intro: proxy_step.background)
  moreover have "?steps px_filtered s1" unfolding s1_def by (rule run_actions_steps [OF run1])
  moreover have "?steps s1 s2" unfolding s2_def by (blast intro: proxy_step.background)
  ultimately have reach2: "proxy_reach pdata_example net_example s2"
    using reach_steps [OF init] by (meson rtranclp_trans)
  obtain tk' sh' out older where run2: "px_run px_second (pr_tasks s2 TpuLine) (pr_shared s2) = Some (tk', sh')"
    and log: "ps_log sh' = (PACKET_DELAY, Released px_batch out) # older" "set (ps_log sh) \<subseteq> set older"
    using px_second_run [OF idle] by (auto simp: s2_def s1_def)
  from reach_steps [OF reach2 run_actions_steps [OF run2]] show ?thesis
    using log ins by (intro exI conjI) (assumption, simp, blast)
qed

section \<open>Properties\<close>

text \<open>
  C3: filters work in time, across all tasks. In every state that any interleaving of the delay lines and of the
  mirror's tasks reaches, take any item that was released, with the log of everything before it. What was released
  consists of exactly those units of the item, in order, none of whose signatures a filter in force blocks;
  and a filter that the mirror ingested before the release, less than two seconds before it by the clock, is in
  force, whatever sweeps and other filters came in between. A filter goes out of force only when a sweep reads the
  clock two seconds or more after its insertion.
\<close>

theorem proxy_filter_in_time:
  assumes "proxy_reach pdata net s" and "ps_log (pr_shared s) = newer @ (t', Released x out) # older"
  shows "item_units out =
      filter (\<lambda>u. \<forall>sig \<in> unit_sigs pdata u. \<not> log_blocks older sig) (item_units x) \<and>
    (\<forall>t sig. (t, FilterOp (Insert t sig)) \<in> set older \<and> t' < t + from_secs 2 \<longrightarrow> log_blocks older sig)"
proof -
  have ok: "log_ok pdata ((t', Released x out) # older)" by (rule reach_log_ok [OF assms])
  have TTL: "from_secs 2 = TTL" by (simp add: TTL_def)
  have "item_units out = filter (\<lambda>u. \<forall>sig \<in> unit_sigs pdata u. \<not> log_blocks older sig) (item_units x)"
    using ok by (simp add: items.units_filt_wf filters_at_blocks)
  then show ?thesis
    unfolding TTL using fresh_filter_blocks [OF ok] by blast
qed

theorem proxy_filter_in_time_witness:
  "\<exists>(s :: (bytes, unit, unit) proxy_sys) out older. proxy_reach pdata_example net_example s \<and>
     ps_log (pr_shared s) = (PACKET_DELAY, Released px_batch out) # older \<and>
     log_blocks older (replicate 64 7) \<and>
     item_units out = filter (\<lambda>u. \<forall>sig \<in> unit_sigs pdata_example u. \<not> log_blocks older sig) (item_units px_batch)"
proof -
  obtain s :: "(bytes, unit, unit) proxy_sys" and out older where s: "proxy_reach pdata_example net_example s"
    "ps_log (pr_shared s) = [] @ (PACKET_DELAY, Released px_batch out) # older"
    and ins: "(0, FilterOp (Insert 0 (replicate 64 7))) \<in> set older"
    using px_reach by blast
  have "PACKET_DELAY < 0 + from_secs 2" by (simp add: PACKET_DELAY_def from_millis_def from_secs_def)
  then have "log_blocks older (replicate 64 7)" using proxy_filter_in_time [OF s] ins by blast
  then show ?thesis
    using proxy_filter_in_time [OF s] s by (intro exI [of _ s] exI [of _ out] exI [of _ older]) simp
qed

text \<open>
  C4: the mirror is served first. In every interleaving, an item that was released was queued at least 100 ms
  before, and before that all its datagrams (one for each live packet of a TPU batch, one for each packet of a
  block engine response, none for bundles, which have their own stream) were handed to \<open>Mirror::send\<close>, in order and
  with no other datagram of that source among them.
\<close>

theorem proxy_mirrors_first:
  assumes "proxy_reach pdata net s" and "ps_log (pr_shared s) = newer @ (t', Released x out) # older"
  shows "\<exists>t mid before. older = mid @ (t, Queued x) # before \<and> t + from_millis 100 \<le> t' \<and>
    take (length (item_datagrams pdata x)) (log_sends (line_source (item_line x)) before) =
      rev (item_datagrams pdata x)"
proof -
  have ok: "log_ok pdata ((t', Released x out) # older)" by (rule reach_log_ok [OF assms])
  then obtain t where t: "(t, Queued x) \<in> set older" "t + PACKET_DELAY \<le> t'" by auto
  then obtain mid before where older: "older = mid @ (t, Queued x) # before" by (meson split_list)
  then have "log_ok pdata ((t, Queued x) # before)"
    using ok log_ok_append [of pdata mid "(t, Queued x) # before"] by simp
  then show ?thesis
    using older t(2) by (intro exI [of _ t] exI [of _ mid] exI [of _ before]) (simp add: PACKET_DELAY_def)
qed

theorem proxy_mirrors_first_witness:
  "\<exists>(s :: (bytes, unit, unit) proxy_sys) out mid before. proxy_reach pdata_example net_example s \<and>
     ps_log (pr_shared s) = (PACKET_DELAY, Released px_batch out) # mid @ (0, Queued px_batch) # before \<and>
     take 2 (log_sends SOURCE_RELAYER before) = [replicate 65 9, replicate 65 7]"
proof -
  obtain s :: "(bytes, unit, unit) proxy_sys" and out older where s: "proxy_reach pdata_example net_example s"
    "ps_log (pr_shared s) = [] @ (PACKET_DELAY, Released px_batch out) # older"
    using px_reach by blast
  obtain t mid before where "older = mid @ (t, Queued px_batch) # before" "t + from_millis 100 \<le> PACKET_DELAY"
    "take (length (item_datagrams pdata_example px_batch)) (log_sends (line_source (item_line px_batch)) before) =
      rev (item_datagrams pdata_example px_batch)"
    using proxy_mirrors_first [OF s] by blast
  moreover from this(2) have "t = 0" by (simp add: PACKET_DELAY_def)
  moreover have "line_source (item_line px_batch) = SOURCE_RELAYER" by (simp add: px_batch_def)
  ultimately have "ps_log (pr_shared s) =
      (PACKET_DELAY, Released px_batch out) # mid @ (0, Queued px_batch) # before"
    "take 2 (log_sends SOURCE_RELAYER before) = [replicate 65 9, replicate 65 7]"
    using s(2) unfolding px_datagrams by (simp_all add: numeral_2_eq_2)
  then show ?thesis using s(1) by blast
qed

text \<open>
  C14: the three lines together lose, duplicate and reorder nothing. In every interleaving, for each line, the items
  queued are the items released followed by the items in its queue, and the release instants of what waits are
  those of the queueing plus the delay.
\<close>

theorem proxy_lines_in_order:
  assumes "proxy_reach pdata net s"
  shows "log_queued l (ps_log (pr_shared s)) =
      log_released l (ps_log (pr_shared s)) @ map snd (tk_queue (pr_tasks s l)) \<and>
    (\<forall>(at, x) \<in> set (tk_queue (pr_tasks s l)). item_line x = l \<and>
       (\<exists>t. (t, Queued x) \<in> set (ps_log (pr_shared s)) \<and> at = t + from_millis 100))"
  using prx.inv_reach [OF assms] by (simp add: proxy_ok_def task_ok_def queue_ok_def PACKET_DELAY_def)

theorem proxy_lines_in_order_witness:
  "\<exists>(s :: (bytes, unit, unit) proxy_sys). proxy_reach pdata_example net_example s \<and>
     log_queued TpuLine (ps_log (pr_shared s)) =
       log_released TpuLine (ps_log (pr_shared s)) @ map snd (tk_queue (pr_tasks s TpuLine)) \<and>
     px_batch \<in> set (log_queued TpuLine (ps_log (pr_shared s)))"
proof -
  obtain s :: "(bytes, unit, unit) proxy_sys" and out older where s: "proxy_reach pdata_example net_example s"
    and log: "ps_log (pr_shared s) = [] @ (PACKET_DELAY, Released px_batch out) # older"
    using px_reach by blast
  have "px_batch \<in> set (log_released TpuLine (ps_log (pr_shared s)))" by (simp add: log) (simp add: px_batch_def)
  then show ?thesis using proxy_lines_in_order [OF s, of TpuLine] s by auto
qed

end
