(* ===== verification/Ip_Parse.thy ===== *)
theory Ip_Parse
  imports Ip_Addr
begin

text \<open>
  \<open>IpAddr::from_str\<close> of the standard library, which the authentication code uses to read the address in
  a token's claims: the recursive-descent parser with its attempts of an IPv4 address, of the groups of
  an IPv6 address and of an IPv4 tail. The lemmas show that it reads back what \<open>Display\<close> prints. A
  parser takes the input and returns the value and the rest of the input, or None, in which case its
  caller goes on from the input it had.
\<close>

section \<open>Parser\<close>

definition to_digit :: "nat \<Rightarrow> char \<Rightarrow> nat option" where
  "to_digit radix c =
     (let n = of_char c :: nat;
        d = (if 48 \<le> n \<and> n \<le> 57 then n - 48 else if 97 \<le> n \<and> n \<le> 122 then n - 87
             else if 65 \<le> n \<and> n \<le> 90 then n - 55 else 36)
      in if d < radix then Some d else None)"

text \<open>The digit loop of \<open>read_number\<close>: the value so far must stay below \<open>lim\<close>, the digits within \<open>maxd\<close>.\<close>

fun read_digits :: "nat \<Rightarrow> nat \<Rightarrow> nat \<Rightarrow> nat \<Rightarrow> nat \<Rightarrow> string \<Rightarrow> (nat \<times> nat \<times> string) option" where
  "read_digits radix maxd lim acc count [] = Some (acc, count, [])"
| "read_digits radix maxd lim acc count (c # cs) =
     (case to_digit radix c of
        None \<Rightarrow> Some (acc, count, c # cs)
      | Some d \<Rightarrow> if lim \<le> acc * radix + d \<or> maxd < Suc count then None
          else read_digits radix maxd lim (acc * radix + d) (Suc count) cs)"

definition read_number :: "nat \<Rightarrow> nat \<Rightarrow> bool \<Rightarrow> nat \<Rightarrow> string \<Rightarrow> (nat \<times> string) option" where
  "read_number radix maxd allow_zero_prefix lim s =
     (case read_digits radix maxd lim 0 0 s of
        None \<Rightarrow> None
      | Some (v, count, rest) \<Rightarrow>
          if count = 0 then None
          else if \<not> allow_zero_prefix \<and> hd s = CHR ''0'' \<and> 1 < count then None
          else Some (v, rest))"

fun read_given_char :: "char \<Rightarrow> string \<Rightarrow> string option" where
  "read_given_char c [] = None"
| "read_given_char c (x # xs) = (if x = c then Some xs else None)"

definition read_separator :: "char \<Rightarrow> nat \<Rightarrow> (string \<Rightarrow> ('a \<times> string) option) \<Rightarrow> string \<Rightarrow> ('a \<times> string) option" where
  "read_separator sep i p s =
     (if 0 < i then (case read_given_char sep s of None \<Rightarrow> None | Some s' \<Rightarrow> p s') else p s)"

fun read_octets :: "nat \<Rightarrow> nat \<Rightarrow> string \<Rightarrow> (u8 list \<times> string) option" where
  "read_octets 0 i s = Some ([], s)"
| "read_octets (Suc left) i s =
     (case read_separator CHR ''.'' i (read_number 10 3 False 256) s of
        None \<Rightarrow> None
      | Some (n, s') \<Rightarrow>
          (case read_octets left (Suc i) s' of
             None \<Rightarrow> None
           | Some (os, s'') \<Rightarrow> Some (of_nat n # os, s'')))"

definition read_ipv4_addr :: "string \<Rightarrow> (u8 list \<times> string) option" where
  "read_ipv4_addr = read_octets 4 0"

definition octets_groups :: "u8 list \<Rightarrow> u16 list" where
  "octets_groups os = [of_nat (unat (os ! 0) * 256 + unat (os ! 1)), of_nat (unat (os ! 2) * 256 + unat (os ! 3))]"

text \<open>\<open>read_groups\<close>: \<open>left\<close> slots are to be filled, \<open>i\<close> are; the flag tells of an IPv4 tail.\<close>

fun read_groups :: "nat \<Rightarrow> nat \<Rightarrow> string \<Rightarrow> u16 list \<times> bool \<times> string" where
  "read_groups 0 i s = ([], False, s)"
| "read_groups (Suc left) i s =
     (case (if 0 < left then read_separator CHR '':'' i read_ipv4_addr s else None) of
        Some (os, s') \<Rightarrow> (octets_groups os, True, s')
      | None \<Rightarrow>
          (case read_separator CHR '':'' i (read_number 16 4 True 65536) s of
             None \<Rightarrow> ([], False, s)
           | Some (g, s') \<Rightarrow>
               (case read_groups left (Suc i) s' of (gs, v4, s'') \<Rightarrow> (of_nat g # gs, v4, s''))))"

definition read_ipv6_addr :: "string \<Rightarrow> (u16 list \<times> string) option" where
  "read_ipv6_addr s =
     (case read_groups 8 0 s of (head, head_ipv4, s1) \<Rightarrow>
        if length head = 8 then Some (head, s1)
        else if head_ipv4 then None
        else Option.bind (read_given_char CHR '':'' s1) (\<lambda>s2.
          Option.bind (read_given_char CHR '':'' s2) (\<lambda>s3.
            (case read_groups (8 - (length head + 1)) 0 s3 of (tail, _, s4) \<Rightarrow>
               Some (head @ replicate (8 - length head - length tail) 0 @ tail, s4)))))"

fun v4_of :: "u8 list \<Rightarrow> ip_addr option" where
  "v4_of [a, b, c, d] = Some (V4 a b c d)"
| "v4_of _ = None"

fun v6_of :: "u16 list \<Rightarrow> ip_addr option" where
  "v6_of [a, b, c, d, e, f, g, h] = Some (V6 a b c d e f g h)"
| "v6_of _ = None"

definition ip_from_str :: "string \<Rightarrow> ip_addr option" where
  "ip_from_str s =
     (case read_ipv4_addr s of
        Some (os, rest) \<Rightarrow> if rest = [] then v4_of os else None
      | None \<Rightarrow>
          (case read_ipv6_addr s of
             Some (gs, rest) \<Rightarrow> if rest = [] then v6_of gs else None
           | None \<Rightarrow> None))"

section \<open>Numbers\<close>

definition no_digit :: "nat \<Rightarrow> string \<Rightarrow> bool" where
  "no_digit b s \<longleftrightarrow> (case s of [] \<Rightarrow> True | c # _ \<Rightarrow> to_digit b c = None)"

lemma to_digit_digit_char: "d < b \<Longrightarrow> b \<le> 16 \<Longrightarrow> to_digit b (digit_char d) = Some d"
  by (auto simp: to_digit_def digit_char_def Let_def)

lemma show_base_induct [case_names digit more]:
  assumes "2 \<le> b" and "\<And>n. n < b \<Longrightarrow> P n" and "\<And>n. b \<le> n \<Longrightarrow> P (n div b) \<Longrightarrow> P n"
  shows "P (n :: nat)"
proof (induction n rule: less_induct)
  case (less n)
  show ?case
  proof (cases "n < b")
    case False
    then have "n div b < n" using assms(1) by (simp add: div_less_dividend)
    then show ?thesis using False assms(3) [of n] less by simp
  qed (rule assms(2))
qed

lemma show_base_digit: "n < b \<Longrightarrow> show_base b n = [digit_char n]"
  by (simp add: show_base.simps)

lemma show_base_more:
  "2 \<le> b \<Longrightarrow> b \<le> n \<Longrightarrow> show_base b n = show_base b (n div b) @ [digit_char (n mod b)]"
  by (subst show_base.simps) simp

lemma show_base_ne [simp]: "show_base b n \<noteq> []"
  by (subst show_base.simps) simp

lemma length_show_base:
  assumes "2 \<le> b" and "n < b ^ Suc k"
  shows "length (show_base b n) \<le> Suc k"
  using assms(1,2)
proof (induction n arbitrary: k rule: show_base_induct [of b, case_names small digit more])
  case small
  then show ?case using assms(1) .
next
  case (digit n)
  then show ?case by (simp add: show_base_digit)
next
  case (more n)
  then obtain k' where k: "k = Suc k'" by (cases k) auto
  have "n div b < b ^ Suc k'" using more.prems k assms(1) by (simp add: less_mult_imp_div_less mult.commute)
  then show ?case using more k assms(1) by (simp add: show_base_more)
qed

lemma read_digits_show:
  assumes "2 \<le> b" and "b \<le> 16"
    and "acc * b ^ length (show_base b n) + n < lim" and "count + length (show_base b n) \<le> maxd"
  shows "read_digits b maxd lim acc count (show_base b n @ rest) =
    read_digits b maxd lim (acc * b ^ length (show_base b n) + n) (count + length (show_base b n)) rest"
  using assms(3,4)
proof (induction n arbitrary: rest rule: show_base_induct [OF assms(1)])
  case (1 n)
  then show ?case using assms(2) by (simp add: show_base_digit to_digit_digit_char)
next
  case (2 n)
  let ?l = "length (show_base b (n div b))"
  have sb: "show_base b n = show_base b (n div b) @ [digit_char (n mod b)]"
    using assms(1) 2(1) by (rule show_base_more)
  have eq: "(acc * b ^ ?l + n div b) * b + n mod b = acc * b ^ Suc ?l + n"
    by (simp add: algebra_simps)
  have "acc * b ^ ?l + n div b \<le> (acc * b ^ ?l + n div b) * b + n mod b"
    using assms(1) by (intro trans_le_add1) (cases b; simp)
  also have "\<dots> < lim" using 2(3) by (simp add: eq sb)
  finally have "acc * b ^ ?l + n div b < lim" .
  then have IH: "read_digits b maxd lim acc count (show_base b (n div b) @ digit_char (n mod b) # rest) =
      read_digits b maxd lim (acc * b ^ ?l + n div b) (count + ?l) (digit_char (n mod b) # rest)"
    using 2(2,4) sb by simp
  have "to_digit b (digit_char (n mod b)) = Some (n mod b)"
    using assms(1,2) by (intro to_digit_digit_char) simp_all
  then show ?case using IH eq 2(3,4) sb by simp
qed

lemma read_digits_stop: "no_digit b rest \<Longrightarrow> read_digits b maxd lim acc count rest = Some (acc, count, rest)"
  by (cases rest) (simp_all add: no_digit_def)

lemma digit_char_zero: "d < 16 \<Longrightarrow> digit_char d = CHR ''0'' \<longleftrightarrow> d = 0"
proof
  assume d: "d < 16" and "digit_char d = CHR ''0''"
  then have "of_char (digit_char d) = (48 :: nat)" by simp
  then show "d = 0" using d by (auto simp: digit_char_def split: if_splits)
next
  have "digit_char 0 = CHR ''0''" by code_simp
  then show "d = 0 \<Longrightarrow> digit_char d = CHR ''0''" by simp
qed

lemma hd_show_base:
  assumes "2 \<le> b" and "b \<le> 16" and "0 < n"
  shows "hd (show_base b n) \<noteq> CHR ''0''"
  using assms(3)
proof (induction n rule: show_base_induct [OF assms(1)])
  case (1 n)
  then show ?case using assms(2) by (simp add: show_base_digit digit_char_zero)
next
  case (2 n)
  then have "0 < n div b" using assms(1) by (simp add: div_greater_zero_iff)
  then show ?case using 2 assms(1) by (simp add: show_base_more)
qed

lemma read_number_show:
  assumes "2 \<le> b" and "b \<le> 16" and "n < lim" and "n < b ^ maxd" and "0 < maxd" and "no_digit b rest"
  shows "read_number b maxd z lim (show_base b n @ rest) = Some (n, rest)"
proof -
  obtain k where k: "maxd = Suc k" using assms(5) by (cases maxd) auto
  have len: "length (show_base b n) \<le> maxd" using length_show_base [of b n k] assms(1,4) k by simp
  have zero: "length (show_base b n) = 1" if "hd (show_base b n) = CHR ''0''"
    using that hd_show_base [OF assms(1,2), of n] assms(1) by (cases "n = 0") (simp_all add: show_base_digit)
  show ?thesis
    using assms len zero read_digits_show [of b 0 n lim 0 maxd rest]
    by (auto simp: read_number_def read_digits_stop)
qed

lemma read_digits_suffix: "read_digits b m lim acc cnt s = Some (v, n, rest) \<Longrightarrow> set rest \<subseteq> set s"
  by (induction b m lim acc cnt s rule: read_digits.induct) (auto split: option.splits if_splits)

lemma read_number_suffix: "read_number b m z lim s = Some (v, rest) \<Longrightarrow> set rest \<subseteq> set s"
  by (auto simp: read_number_def dest!: read_digits_suffix split: option.splits if_splits)

lemma read_number_no_digit: "no_digit b s \<Longrightarrow> read_number b m z lim s = None"
  by (simp add: read_number_def read_digits_stop)

section \<open>Addresses\<close>

lemma no_digit_simps [simp]:
  "no_digit b []" "no_digit 10 (CHR ''.'' # s)" "no_digit 16 (CHR '':'' # s)" "no_digit 10 (CHR '':'' # s)"
  by (simp_all add: no_digit_def to_digit_def Let_def)

lemma unat_u16_less: "unat (g :: u16) < 65536"
  using unsigned_less [of g] by simp

lemma read_ipv4_unfold: "read_ipv4_addr = read_octets (Suc (Suc (Suc (Suc 0)))) 0"
  by (simp add: read_ipv4_addr_def numeral_eq_Suc)

lemma read_octets_show:
  assumes "no_digit 10 rest"
  shows "read_ipv4_addr (show_v4 a b c d @ rest) = Some ([a, b, c, d], rest)"
proof -
  have n: "read_number 10 3 False 256 (show_dec (unat x) @ r) = Some (unat x, r)" if "no_digit 10 r" for x :: u8 and r
    using that unat_u8_less [of x] less_trans [of "unat x" 256 1000] by (intro read_number_show) simp_all
  show ?thesis
    using assms by (simp add: read_ipv4_unfold read_separator_def n)
qed

lemma read_ipv4_no_dot:
  assumes "CHR ''.'' \<notin> set s"
  shows "read_ipv4_addr s = None"
proof (cases "read_number 10 3 False 256 s")
  case (Some vr)
  obtain v r where vr: "vr = (v, r)" by (cases vr)
  have "CHR ''.'' \<notin> set r" using read_number_suffix Some vr assms by fastforce
  then have "read_given_char CHR ''.'' r = None" by (cases r) auto
  then show ?thesis using Some vr by (simp add: read_ipv4_unfold read_separator_def)
qed (simp add: read_ipv4_unfold read_separator_def)

lemma digit_char_dot: "d < 16 \<Longrightarrow> digit_char d \<noteq> CHR ''.''"
proof
  assume d: "d < 16" and "digit_char d = CHR ''.''"
  then have "of_char (digit_char d) = (46 :: nat)" by simp
  then show False using d by (auto simp: digit_char_def split: if_splits)
qed

lemma show_hex_dot: "CHR ''.'' \<notin> set (show_hex n)"
proof -
  have two: "2 \<le> (16 :: nat)" by simp
  show ?thesis
  proof (induction n rule: show_base_induct [OF two])
    case (1 n)
    then show ?case using digit_char_dot [of n] by (simp add: show_base_digit)
  next
    case (2 n)
    then show ?case using digit_char_dot [of "n mod 16"] by (simp add: show_base_more)
  qed
qed

lemma show_groups_dot: "CHR ''.'' \<notin> set (show_groups gs)"
  by (induction gs rule: show_groups.induct) (use show_hex_dot in auto)

lemma read_groups_show:
  assumes "CHR ''.'' \<notin> set rest" and "rest = [] \<or> (\<exists>r. rest = CHR '':'' # CHR '':'' # r)" and "length gs \<le> left"
  shows "read_groups left i ((if 0 < i \<and> gs \<noteq> [] then '':'' else []) @ show_groups gs @ rest) = (gs, False, rest)"
  using assms(3)
proof (induction gs arbitrary: left i)
  case Nil
  have colon: "read_number 16 4 True 65536 (CHR '':'' # r) = None" for r
    by (rule read_number_no_digit) simp
  have "read_number 16 4 True 65536 [] = None"
    by (rule read_number_no_digit) simp
  then show ?case
    using assms(1,2) colon by (cases left) (auto simp: read_separator_def read_ipv4_no_dot)
next
  case (Cons g gs)
  then obtain left' where left: "left = Suc left'" and le: "length gs \<le> left'" by (cases left) auto
  define r where "r = (if gs \<noteq> [] then '':'' else []) @ show_groups gs @ rest"
  let ?s = "(if 0 < i \<and> g # gs \<noteq> [] then '':'' else []) @ show_groups (g # gs) @ rest"
  have shown: "show_groups (g # gs) @ rest = show_hex (unat g) @ r" by (cases gs) (simp_all add: r_def)
  have sep: "read_separator CHR '':'' i p ?s = p (show_hex (unat g) @ r)" for p :: "string \<Rightarrow> ('a \<times> string) option"
    by (simp add: read_separator_def shown del: show_groups.simps)
  have "CHR ''.'' \<notin> set (show_groups (g # gs) @ rest)"
    using assms(1) show_groups_dot by (simp del: show_groups.simps)
  then have v4: "read_ipv4_addr (show_hex (unat g) @ r) = None"
    unfolding shown by (rule read_ipv4_no_dot)
  have "no_digit 16 r" using assms(2) by (cases gs) (auto simp: r_def)
  then have num: "read_number 16 4 True 65536 (show_hex (unat g) @ r) = Some (unat g, r)"
    using unat_u16_less [of g] by (intro read_number_show) simp_all
  have IH: "read_groups left' (Suc i) r = (gs, False, rest)" using Cons.IH [OF le, of "Suc i"] by (simp add: r_def)
  show ?case
    unfolding left read_groups.simps sep using IH by (auto simp: num v4)
qed

text \<open>The run of zero groups that \<open>Display\<close> writes as a double colon holds zeros only.\<close>

lemma zero_span_zeros:
  assumes "zero_span (length pre) gs (cs, cl) (ls, ll) = (s, l)"
    and "cl = 0 \<or> cs + cl = length pre \<and> (\<forall>j. cs \<le> j \<longrightarrow> j < cs + cl \<longrightarrow> pre ! j = 0)"
    and "ls + ll \<le> length pre \<and> (\<forall>j. ls \<le> j \<longrightarrow> j < ls + ll \<longrightarrow> pre ! j = 0)"
  shows "s + l \<le> length (pre @ gs) \<and> (\<forall>j. s \<le> j \<longrightarrow> j < s + l \<longrightarrow> (pre @ gs) ! j = 0)"
  using assms
proof (induction gs arbitrary: pre cs cl ls ll)
  case Nil
  then show ?case by simp
next
  case (Cons g gs)
  have pre': "(pre @ [g]) @ gs = pre @ g # gs" "length (pre @ [g]) = Suc (length pre)" by simp_all
  have longest: "ls + ll \<le> length (pre @ [g]) \<and> (\<forall>j. ls \<le> j \<longrightarrow> j < ls + ll \<longrightarrow> (pre @ [g]) ! j = 0)"
    using Cons.prems(3) by (auto simp: nth_append)
  show ?case
  proof (cases "g = 0")
    case False
    then show ?thesis
      using Cons.IH [of "pre @ [g]" 0 0 ls ll] Cons.prems(1) longest by simp
  next
    case True
    define cs' where "cs' = (if cl = 0 then length pre else cs)"
    have cur: "cs' + Suc cl = length (pre @ [g]) \<and>
        (\<forall>j. cs' \<le> j \<longrightarrow> j < cs' + Suc cl \<longrightarrow> (pre @ [g]) ! j = 0)"
      using Cons.prems(2) True by (auto simp: cs'_def nth_append less_Suc_eq)
    have z: "zero_span (length (pre @ [g])) gs (cs', Suc cl)
        (if ll < Suc cl then (cs', Suc cl) else (ls, ll)) = (s, l)"
      using Cons.prems(1) True by (auto simp: cs'_def Let_def split: if_splits)
    show ?thesis
    proof (cases "ll < Suc cl")
      case True
      then show ?thesis using Cons.IH [of "pre @ [g]" cs' "Suc cl" cs' "Suc cl"] z cur by simp
    next
      case False
      then show ?thesis using Cons.IH [of "pre @ [g]" cs' "Suc cl" ls ll] z cur longest by simp
    qed
  qed
qed

lemma zero_span_split:
  assumes "zero_span 0 gs (0, 0) (0, 0) = (s, l)"
  shows "s + l \<le> length gs" and "gs = take s gs @ replicate l 0 @ drop (s + l) gs"
proof -
  have z: "s + l \<le> length gs" "\<And>j. s \<le> j \<Longrightarrow> j < s + l \<Longrightarrow> gs ! j = 0"
    using zero_span_zeros [of "[]" gs 0 0 0 0 s l] assms by simp_all
  then show "s + l \<le> length gs" by simp
  have "take l (drop s gs) = replicate l 0"
    using z by (intro nth_equalityI) simp_all
  then show "gs = take s gs @ replicate l 0 @ drop (s + l) gs"
    by (metis add.commute append_take_drop_id drop_drop)
qed

lemma read_groups_colon: "read_groups left 0 (CHR '':'' # t) = ([], False, CHR '':'' # t)"
proof -
  have "read_number r m z lim (CHR '':'' # t) = None" if "r = 10 \<or> r = 16" for r m z lim
    using that by (intro read_number_no_digit) auto
  then show ?thesis by (cases left) (simp_all add: read_ipv4_unfold read_separator_def)
qed

lemma read_groups_ffff:
  "read_groups 7 0 (''ffff:'' @ show_v4 a b c d) = (0xffff # octets_groups [a, b, c, d], True, [])"
proof -
  have "digit_char 15 = CHR ''f''" by code_simp
  then have hex: "show_hex 65535 = ''ffff''" by (simp add: show_base_more show_base_digit)
  have num: "read_number 16 4 True 65536 (''ffff:'' @ t) = Some (65535, CHR '':'' # t)" for t
    using read_number_show [of 16 65535 65536 4 "CHR '':'' # t" True] by (simp add: hex)
  have "no_digit 10 (CHR ''f'' # t)" for t
    by (simp add: no_digit_def to_digit_def)
  then have "read_ipv4_addr (''ffff:'' @ t) = None" for t
    by (simp add: read_ipv4_unfold read_separator_def read_number_no_digit)
  moreover have "read_groups 6 (Suc 0) (CHR '':'' # show_v4 a b c d) = (octets_groups [a, b, c, d], True, [])"
    using read_groups.simps(2) [of 5 "Suc 0" "CHR '':'' # show_v4 a b c d"] read_octets_show [of "[]" a b c d]
    by (simp add: read_separator_def del: show_v4.simps)
  ultimately show ?thesis
    using read_groups.simps(2) [of 6 0 "''ffff:'' @ show_v4 a b c d"] num [of "show_v4 a b c d"]
    by (simp add: read_separator_def del: show_v4.simps)
qed

lemma read_ipv6_mapped:
  "read_ipv6_addr (''::ffff:'' @ show_v4 a b c d) =
     Some ([0, 0, 0, 0, 0, 0xffff] @ octets_groups [a, b, c, d], [])"
  using read_groups_colon [of 8] read_groups_ffff [of a b c d]
  by (simp add: read_ipv6_addr_def octets_groups_def eval_nat_numeral(2,3) del: show_v4.simps)

lemma read_ipv6_show:
  assumes "length gs = 8" and "to_ipv4_mapped gs = None"
  shows "read_ipv6_addr (show_v6 gs) = Some (gs, [])"
proof -
  obtain s l where z: "zero_span 0 gs (0, 0) (0, 0) = (s, l)" by (cases "zero_span 0 gs (0, 0) (0, 0)")
  show ?thesis
  proof (cases "1 < l")
    case False
    then show ?thesis
      using read_groups_show [of "[]" gs 8 0] assms z by (simp add: show_v6_def read_ipv6_addr_def)
  next
    case True
    let ?t = "drop (s + l) gs"
    have head: "read_groups 8 0 (show_groups (take s gs) @ ''::'' @ show_groups ?t) =
        (take s gs, False, ''::'' @ show_groups ?t)"
      using read_groups_show [of "''::'' @ show_groups ?t" "take s gs" 8 0] show_groups_dot assms(1) by simp
    have tail: "read_groups (8 - (s + 1)) 0 (show_groups ?t) = (?t, False, [])"
      using read_groups_show [of "[]" ?t "8 - (s + 1)" 0] assms(1) True by simp
    have len: "length (take s gs) = s" "s < 8" "length ?t = 8 - s - l" "8 - s - length ?t = l"
      using zero_span_split(1) [OF z] True assms(1) by simp_all
    have "take s gs @ replicate l 0 @ ?t = gs" by (rule zero_span_split(2) [OF z, symmetric])
    then show ?thesis
      using head tail len True assms(2) z by (simp add: show_v6_def read_ipv6_addr_def)
  qed
qed

lemma u16_split: "of_nat (unat (ucast (drop_bit 8 g) :: u8) * 256 + unat (ucast g :: u8)) = (g :: u16)"
proof -
  have "unat (ucast g :: u8) = unat g mod 256"
    by (simp add: unsigned_ucast_eq take_bit_eq_mod)
  moreover have "unat (ucast (drop_bit 8 g) :: u8) = unat g div 256"
    using unat_u16_less [of g]
    by (simp add: unsigned_ucast_eq take_bit_eq_mod unsigned_drop_bit_eq drop_bit_eq_div unat_div less_mult_imp_div_less)
  ultimately have "unat (ucast (drop_bit 8 g) :: u8) * 256 + unat (ucast g :: u8) = unat g"
    by (simp add: mult.commute)
  then show ?thesis by simp
qed

lemma to_ipv4_mapped_eq: "to_ipv4_mapped gs = Some (g, h) \<Longrightarrow> gs = [0, 0, 0, 0, 0, 0xffff, g, h]"
  by (cases gs rule: to_ipv4_mapped.cases) (auto split: if_splits)

lemma read_ipv6_show_v6:
  assumes "length gs = 8"
  shows "read_ipv6_addr (show_v6 gs) = Some (gs, [])"
proof (cases "to_ipv4_mapped gs")
  case None
  then show ?thesis using assms by (intro read_ipv6_show)
next
  case (Some gh)
  obtain g h where gh: "gh = (g, h)" by (cases gh)
  have "show_v6 gs = ''::ffff:'' @ show_v4 (ucast (drop_bit 8 g)) (ucast g) (ucast (drop_bit 8 h)) (ucast h)"
    using Some gh by (simp add: show_v6_def del: show_v4.simps)
  then show ?thesis
    using to_ipv4_mapped_eq [of gs g h] Some gh
    by (simp only: read_ipv6_mapped) (simp add: octets_groups_def u16_split del: of_nat_add of_nat_mult)
qed

lemma read_ipv4_show_v6: "read_ipv4_addr (show_v6 gs) = None"
proof (cases "to_ipv4_mapped gs")
  case None
  then have "CHR ''.'' \<notin> set (show_v6 gs)"
    using show_groups_dot by (simp add: show_v6_def split: prod.split)
  then show ?thesis by (rule read_ipv4_no_dot)
next
  case (Some gh)
  have "read_number 10 m z lim (CHR '':'' # t) = None" for m z lim t
    by (rule read_number_no_digit) simp
  then show ?thesis using Some
    by (cases gh) (simp add: show_v6_def read_ipv4_unfold read_separator_def del: show_v4.simps)
qed

text \<open>
  \<open>IpAddr::from_str\<close> reads back the text \<open>Display\<close> writes, for every IPv4 and IPv6 address, so the
  client address in a token is the address the token was issued for.
\<close>

theorem ip_from_str_to_string: "ip_from_str (ip_to_string ip) = Some ip"
proof (cases ip)
  case (V4 a b c d)
  then show ?thesis
    using read_octets_show [of "[]" a b c d] by (simp add: ip_from_str_def del: show_v4.simps)
next
  case (V6 a b c d e f g h)
  then show ?thesis
    by (simp add: ip_from_str_def read_ipv4_show_v6 read_ipv6_show_v6)
qed

end
