(* ===== verification/Forwarder.thy ===== *)
theory Forwarder
  imports Proxy_Filter
begin

text \<open>
  The forwarder of \<open>src/relayer/forwarder.rs\<close>: the subscription table with room for one validator,
  \<open>subscribe_packets\<close>, the event loop with \<open>forward_packets\<close>, \<open>handle_heartbeat\<close> and
  \<open>drop_connections\<close>, \<open>get_tpu_configs\<close> and \<open>ConnectedValidator::get\<close>.

  The bounded channel to a subscriber belongs to tokio and the wall clock to the system: \<open>chan\<close> holds
  the calls as functions on a world of an unspecified type \<open>'w\<close>. Integer arithmetic is that of the
  release build, which wraps.
\<close>

type_synonym pubkey = bytes

datatype try_send = TsOk | TsFull | TsClosed

record ('s, 'w) chan =
  ch_new :: "nat \<Rightarrow> 'w \<Rightarrow> 's \<times> 'w"
  ch_try_send :: "'s \<Rightarrow> relayer_response \<Rightarrow> 'w \<Rightarrow> try_send \<times> 'w"
  ch_timestamp :: "'w \<Rightarrow> timestamp \<times> 'w"

type_synonym 's subscriptions = "(pubkey, 's) hmap"

definition SUBSCRIBER_QUEUE_CAPACITY :: nat where "SUBSCRIBER_QUEUE_CAPACITY = 50000"
definition VALIDATOR_PACKET_BATCH_SIZE :: nat where "VALIDATOR_PACKET_BATCH_SIZE = 64"

section \<open>Subscriptions\<close>

definition connected_validator :: "'s subscriptions \<Rightarrow> pubkey option" where
  "connected_validator subs =
     (if hm_len subs = 1 then (case hm_keys subs of [] \<Rightarrow> None | k # _ \<Rightarrow> Some k) else None)"

datatype add_error = TooManySubscriptions "pubkey list"

definition add_subscription :: "pubkey \<Rightarrow> 's \<Rightarrow> 's subscriptions \<Rightarrow> ('s subscriptions, add_error) result" where
  "add_subscription identity sender subs =
     (let len = hm_len subs
      in case hm_get subs identity of
           None \<Rightarrow> if len \<ge> 1 then Err (TooManySubscriptions (hm_keys subs))
             else Ok (hm_insert identity sender subs)
         | Some _ \<Rightarrow> Ok (hm_insert identity sender subs))"

definition drop_connections :: "pubkey list \<Rightarrow> 's subscriptions \<Rightarrow> 's subscriptions" where
  "drop_connections failed_forwards subs = fold hm_remove failed_forwards subs"

datatype subscribe_error = MissingPubkey | SubscribeRefused add_error

definition subscribe_packets :: "('s, 'w) chan \<Rightarrow> pubkey option \<Rightarrow> 's subscriptions \<times> 'w \<Rightarrow>
    ('s, subscribe_error) result \<times> 's subscriptions \<times> 'w" where
  "subscribe_packets chan extension sw =
     (case sw of (subs, w) \<Rightarrow>
       (case extension of
          None \<Rightarrow> (Err MissingPubkey, subs, w)
        | Some pubkey \<Rightarrow>
            (case ch_new chan SUBSCRIBER_QUEUE_CAPACITY w of (sender, w') \<Rightarrow>
              (case add_subscription pubkey sender subs of
                 Err e \<Rightarrow> (Err (SubscribeRefused e), subs, w')
               | Ok subs' \<Rightarrow> (Ok sender, subs', w')))))"

section \<open>Forwarding\<close>

text \<open>The loop that fills \<open>current\<close> and cuts a batch when it holds \<open>n\<close> packets.\<close>

fun batch_loop :: "nat \<Rightarrow> proto_packet list \<Rightarrow> proto_packet list \<Rightarrow> proto_batch list" where
  "batch_loop n [] current = (if current = [] then [] else [\<lparr>pb_packets = current\<rparr>])"
| "batch_loop n (p # ps) current =
     (let current' = current @ [p]
      in if length current' = n then \<lparr>pb_packets = current'\<rparr> # batch_loop n ps []
         else batch_loop n ps current')"

definition live_proto_packets :: "'b pdata \<Rightarrow> 'b banking_batch \<Rightarrow> proto_packet list" where
  "live_proto_packets pdata batches =
     concat (map (\<lambda>batch. List.map_filter (packet_to_proto_packet pdata) (filter (\<lambda>p. \<not> discard p) batch)) batches)"

type_synonym send_acc = "pubkey list \<times> u64"

definition try_forward :: "('s, 'w) chan \<Rightarrow> 's \<Rightarrow> pubkey \<Rightarrow> relayer_response \<Rightarrow> send_acc \<times> 'w \<Rightarrow> send_acc \<times> 'w" where
  "try_forward chan sender pubkey response acc =
     (case acc of ((failed_forwards, dropped), w) \<Rightarrow>
       (case ch_try_send chan sender response w of
          (TsOk, w') \<Rightarrow> ((failed_forwards, dropped), w')
        | (TsFull, w') \<Rightarrow> ((failed_forwards, dropped + 1), w')
        | (TsClosed, w') \<Rightarrow> ((failed_forwards @ [pubkey], dropped), w')))"

definition batch_response :: "timestamp option \<Rightarrow> proto_batch \<Rightarrow> relayer_response" where
  "batch_response ts batch = \<lparr>rr_header = Some \<lparr>hd_ts = ts\<rparr>, rr_msg = Some (Batch batch)\<rparr>"

definition forward_batch :: "('s, 'w) chan \<Rightarrow> (pubkey \<times> 's) list \<Rightarrow> timestamp option \<Rightarrow> proto_batch \<Rightarrow>
    send_acc \<times> 'w \<Rightarrow> send_acc \<times> 'w" where
  "forward_batch chan subscribers ts batch acc =
     (if pb_packets batch = [] then acc
      else let acc' = fold (\<lambda>(pubkey, sender). try_forward chan sender pubkey (batch_response ts batch))
                 (butlast subscribers) acc
           in (case last subscribers of (pubkey, sender) \<Rightarrow>
                 try_forward chan sender pubkey (batch_response ts batch) acc'))"

definition forward_packets :: "'b pdata \<Rightarrow> ('s, 'w) chan \<Rightarrow> ('b banking_batch, string) result \<Rightarrow>
    's subscriptions \<times> 'w \<Rightarrow> (send_acc, string) result \<times> 'w" where
  "forward_packets pdata chan maybe_packet_batches sw =
     (case sw of (subs, w) \<Rightarrow>
       (case maybe_packet_batches of
          Err e \<Rightarrow> (Err e, w)
        | Ok packet_batches \<Rightarrow>
            (let proto_packet_batches =
               batch_loop VALIDATOR_PACKET_BATCH_SIZE (live_proto_packets pdata packet_batches) [];
               subscribers = subs
             in if subscribers = [] then (Ok ([], 0), w)
                else (case ch_timestamp chan w of (ts, w1) \<Rightarrow>
                  (case fold (forward_batch chan subscribers (Some ts)) proto_packet_batches (([], 0), w1) of
                     (acc, w2) \<Rightarrow> (Ok acc, w2))))))"

definition heartbeat_response :: "u64 \<Rightarrow> relayer_response" where
  "heartbeat_response count = \<lparr>rr_header = None, rr_msg = Some (Heartbeat count)\<rparr>"

definition handle_heartbeat :: "('s, 'w) chan \<Rightarrow> u64 \<Rightarrow> 's subscriptions \<times> 'w \<Rightarrow>
    (send_acc, string) result \<times> u64 \<times> 'w" where
  "handle_heartbeat chan heartbeat_count sw =
     (case sw of (subs, w) \<Rightarrow>
       (case fold (\<lambda>(pubkey, sender). try_forward chan sender pubkey (heartbeat_response heartbeat_count))
               subs (([], 0), w) of
          (acc, w') \<Rightarrow> (Ok acc, heartbeat_count + 1, w')))"

section \<open>get_tpu_configs\<close>

record socket =
  sk_ip :: string
  sk_port :: int

record tpu_configs =
  tc_tpu :: "socket option"
  tc_tpu_forward :: "socket option"

definition get_tpu_configs :: "ip_addr \<Rightarrow> u16 \<Rightarrow> u16 \<Rightarrow> tpu_configs" where
  "get_tpu_configs public_ip tpu_quic_port tpu_fwd_quic_port =
     \<lparr>tc_tpu = Some \<lparr>sk_ip = ip_to_string public_ip, sk_port = uint (tpu_quic_port - 6)\<rparr>,
      tc_tpu_forward = Some \<lparr>sk_ip = ip_to_string public_ip, sk_port = uint (tpu_fwd_quic_port - 6)\<rparr>\<rparr>"

section \<open>The event loop\<close>

text \<open>
  The loop of \<open>run_event_loop\<close> works in two moves, the sends and then \<open>drop_connections\<close>; between them,
  and between events, the gRPC server may run \<open>subscribe_packets\<close> and receivers may take messages or go
  away. \<open>fw_pending\<close> holds the failed forwards of an event whose connections are not dropped yet;
  \<open>fw_result\<close> is the result once the loop has ended.
\<close>

datatype 'b fwd_event = FwPackets "('b banking_batch, string) result" | FwHeartbeat | FwDropLog

record ('s, 'w) fwd =
  fw_subs :: "'s subscriptions"
  fw_heartbeat_count :: u64
  fw_dropped_sends :: u64
  fw_world :: 'w
  fw_pending :: "pubkey list option"
  fw_result :: "(unit, string) result option"
  fw_exit :: bool

definition fwd_init :: "'w \<Rightarrow> ('s, 'w) fwd" where
  "fwd_init w = \<lparr>fw_subs = hm_empty, fw_heartbeat_count = 0, fw_dropped_sends = 0, fw_world = w,
     fw_pending = None, fw_result = None, fw_exit = False\<rparr>"

definition loop_sent :: "(send_acc, string) result \<Rightarrow> ('s, 'w) fwd \<Rightarrow> ('s, 'w) fwd" where
  "loop_sent r st =
     (case r of
        Err e \<Rightarrow> st\<lparr>fw_result := Some (Err e)\<rparr>
      | Ok (failed_forwards, dropped) \<Rightarrow>
          st\<lparr>fw_dropped_sends := fw_dropped_sends st + dropped, fw_pending := Some failed_forwards\<rparr>)"

fun loop_event :: "'b pdata \<Rightarrow> ('s, 'w) chan \<Rightarrow> 'b fwd_event \<Rightarrow> ('s, 'w) fwd \<Rightarrow> ('s, 'w) fwd" where
  "loop_event pdata chan (FwPackets maybe_packet_batches) st =
     (case forward_packets pdata chan maybe_packet_batches (fw_subs st, fw_world st) of (r, w) \<Rightarrow>
        loop_sent r (st\<lparr>fw_world := w\<rparr>))"
| "loop_event pdata chan FwHeartbeat st =
     (case handle_heartbeat chan (fw_heartbeat_count st) (fw_subs st, fw_world st) of (r, count, w) \<Rightarrow>
        loop_sent r (st\<lparr>fw_world := w, fw_heartbeat_count := count\<rparr>))"
| "loop_event pdata chan FwDropLog st =
     (if fw_dropped_sends st > 0 then st\<lparr>fw_dropped_sends := 0\<rparr> else st)"

definition loop_drop :: "('s, 'w) fwd \<Rightarrow> ('s, 'w) fwd" where
  "loop_drop st =
     (case fw_pending st of None \<Rightarrow> st
      | Some failed_forwards \<Rightarrow>
          st\<lparr>fw_subs := drop_connections failed_forwards (fw_subs st), fw_pending := None\<rparr>)"

text \<open>The end of the thread: an error of the loop raises the exit flag.\<close>

definition event_thread_end :: "('s, 'w) fwd \<Rightarrow> ('s, 'w) fwd" where
  "event_thread_end st =
     (case fw_result st of
        Some (Err e) \<Rightarrow> if \<not> fw_exit st then st\<lparr>fw_exit := True\<rparr> else st
      | _ \<Rightarrow> st)"

definition grpc_subscribe :: "('s, 'w) chan \<Rightarrow> pubkey option \<Rightarrow> ('s, 'w) fwd \<Rightarrow> ('s, 'w) fwd" where
  "grpc_subscribe chan extension st =
     (case subscribe_packets chan extension (fw_subs st, fw_world st) of (_, subs, w) \<Rightarrow>
        st\<lparr>fw_subs := subs, fw_world := w\<rparr>)"

inductive fwd_step :: "'b pdata \<Rightarrow> ('s, 'w) chan \<Rightarrow> ('s, 'w) fwd \<Rightarrow> ('s, 'w) fwd \<Rightarrow> bool"
  for pdata chan where
  event: "fw_result st = None \<Longrightarrow> fw_pending st = None \<Longrightarrow>
    fwd_step pdata chan st (event_thread_end (loop_event pdata chan ev st))"
| drop: "fw_pending st \<noteq> None \<Longrightarrow> fwd_step pdata chan st (loop_drop st)"
| exit: "fw_exit st \<Longrightarrow> fw_result st = None \<Longrightarrow> fw_pending st = None \<Longrightarrow>
    fwd_step pdata chan st (st\<lparr>fw_result := Some (Ok ())\<rparr>)"
| subscribe: "fwd_step pdata chan st (grpc_subscribe chan extension st)"
| shutdown: "fwd_step pdata chan st (st\<lparr>fw_exit := True\<rparr>)"
| receivers: "fwd_step pdata chan st (st\<lparr>fw_world := w\<rparr>)"

abbreviation fwd_reach :: "'b pdata \<Rightarrow> ('s, 'w) chan \<Rightarrow> ('s, 'w) fwd \<Rightarrow> bool" where
  "fwd_reach pdata chan \<equiv> reach (\<lambda>st. \<exists>w. st = fwd_init w) (fwd_step pdata chan)"

section \<open>Batching\<close>

text \<open>The reference: \<open>chunks(n)\<close> of the standard library.\<close>

function chunks :: "nat \<Rightarrow> 'a list \<Rightarrow> 'a list list" where
  "chunks n xs = (if xs = [] \<or> n = 0 then [] else take n xs # chunks n (drop n xs))"
  by auto
termination by (relation "measure (\<lambda>(n, xs). length xs)") auto

declare chunks.simps [simp del]

lemma chunks_Nil [simp]: "chunks n [] = []"
  by (simp add: chunks.simps)

lemma chunks_append: "0 < n \<Longrightarrow> length xs = n \<Longrightarrow> chunks n (xs @ ys) = xs # chunks n ys"
  by (subst chunks.simps) auto

lemma chunks_short: "xs \<noteq> [] \<Longrightarrow> length xs \<le> n \<Longrightarrow> chunks n xs = [xs]"
  by (subst chunks.simps) (cases n; auto)

lemma concat_chunks: "0 < n \<Longrightarrow> concat (chunks n xs) = xs"
proof (induction n xs rule: chunks.induct)
  case (1 n xs)
  then show ?case by (subst chunks.simps) simp
qed

lemma chunks_sizes: "c \<in> set (chunks n xs) \<Longrightarrow> c \<noteq> [] \<and> length c \<le> n"
proof (induction n xs rule: chunks.induct)
  case (1 n xs)
  then show ?case by (subst (asm) (2) chunks.simps) (auto split: if_splits)
qed

lemma chunks_eq_Nil: "0 < n \<Longrightarrow> chunks n xs = [] \<longleftrightarrow> xs = []"
  by (subst chunks.simps) simp

lemma chunks_full: "0 < n \<Longrightarrow> c \<in> set (butlast (chunks n xs)) \<Longrightarrow> length c = n"
proof (induction n xs rule: chunks.induct)
  case (1 n xs)
  show ?case
  proof (cases "xs = [] \<or> drop n xs = []")
    case True
    then show ?thesis using 1 by (subst (asm) (2) chunks.simps) (auto split: if_splits)
  next
    case False
    then have "chunks n xs = take n xs # chunks n (drop n xs)"
      using 1(2) by (subst chunks.simps) simp
    moreover have "chunks n (drop n xs) \<noteq> []"
      using False 1(2) chunks_eq_Nil [of n "drop n xs"] by simp
    ultimately show ?thesis using 1 False by (auto split: if_splits)
  qed
qed

lemma batch_loop_chunks:
  assumes "0 < n" and "length current < n"
  shows "batch_loop n ps current = map (\<lambda>c. \<lparr>pb_packets = c\<rparr>) (chunks n (current @ ps))"
  using assms(2)
proof (induction ps arbitrary: current)
  case Nil
  then show ?case by (simp add: chunks_short)
next
  case (Cons p ps)
  show ?case
  proof (cases "length (current @ [p]) = n")
    case True
    then have "chunks n ((current @ [p]) @ ps) = (current @ [p]) # chunks n ps"
      using assms(1) by (rule chunks_append [rotated])
    then show ?thesis using True Cons.IH [of "[]"] assms(1) by simp
  next
    case False
    then show ?thesis using Cons.IH [of "current @ [p]"] Cons.prems by simp
  qed
qed

section \<open>Sends\<close>

text \<open>
  The reference for the sends of an event: the calls of \<open>try_send\<close> in order, and the result of each.
\<close>

type_synonym 's call = "pubkey \<times> 's \<times> relayer_response"

fun send_all :: "('s, 'w) chan \<Rightarrow> 's call list \<Rightarrow> 'w \<Rightarrow> (pubkey \<times> try_send) list \<times> 'w" where
  "send_all chan [] w = ([], w)"
| "send_all chan ((k, s, r) # cs) w =
     (let (t, w1) = ch_try_send chan s r w; (ts, w2) = send_all chan cs w1 in ((k, t) # ts, w2))"

definition closed_keys :: "(pubkey \<times> try_send) list \<Rightarrow> pubkey list" where
  "closed_keys rs = map fst (filter (\<lambda>(k, t). t = TsClosed) rs)"

definition full_count :: "(pubkey \<times> try_send) list \<Rightarrow> nat" where
  "full_count rs = length (filter (\<lambda>(k, t). t = TsFull) rs)"

definition calls_of :: "'s subscriptions \<Rightarrow> relayer_response list \<Rightarrow> 's call list" where
  "calls_of subs rs = concat (map (\<lambda>r. map (\<lambda>(k, s). (k, s, r)) subs) rs)"

definition batch_responses :: "timestamp \<Rightarrow> proto_packet list \<Rightarrow> relayer_response list" where
  "batch_responses ts ps = map (\<lambda>c. batch_response (Some ts) \<lparr>pb_packets = c\<rparr>) (chunks 64 ps)"

definition response_packets :: "relayer_response \<Rightarrow> proto_packet list" where
  "response_packets r = (case rr_msg r of Some (Batch b) \<Rightarrow> pb_packets b | _ \<Rightarrow> [])"

lemma send_all_keys: "map fst (fst (send_all chan cs w)) = map fst cs"
  by (induction chan cs w rule: send_all.induct) (auto split: prod.splits)

lemma fold_try_forward:
  "fold (\<lambda>(k, s, r). try_forward chan s k r) cs ((f, d), w) =
     (case send_all chan cs w of (rs, w') \<Rightarrow> ((f @ closed_keys rs, d + of_nat (full_count rs)), w'))"
proof (induction chan cs w arbitrary: f d rule: send_all.induct)
  case (1 chan w)
  then show ?case by (simp add: closed_keys_def full_count_def)
next
  case (2 chan k s r cs w)
  obtain t w1 where t: "ch_try_send chan s r w = (t, w1)" by (cases "ch_try_send chan s r w")
  note IH = 2 [OF t [symmetric]]
  have "try_forward chan s k r ((f, d), w) =
      ((if t = TsClosed then f @ [k] else f, if t = TsFull then d + 1 else d), w1)"
    by (cases t) (simp_all add: try_forward_def t)
  then show ?case
    by (cases t) (simp_all add: t IH closed_keys_def full_count_def split: prod.splits)
qed

lemma forward_batch_fold:
  assumes "subs \<noteq> []" and "pb_packets b \<noteq> []"
  shows "forward_batch chan subs ts b =
    fold (\<lambda>(k, s, r). try_forward chan s k r) (map (\<lambda>(k, s). (k, s, batch_response ts b)) subs)"
proof (rule ext)
  fix acc
  obtain ks k s where subs: "subs = ks @ [(k, s)]" using assms(1) by (metis append_butlast_last_id surj_pair)
  show "forward_batch chan subs ts b acc =
    fold (\<lambda>(k, s, r). try_forward chan s k r) (map (\<lambda>(k, s). (k, s, batch_response ts b)) subs) acc"
    using assms(2) by (simp add: subs forward_batch_def fold_map comp_def case_prod_unfold)
qed

lemma fold_forward_batch:
  assumes "subs \<noteq> []" and "\<And>b. b \<in> set bs \<Longrightarrow> pb_packets b \<noteq> []"
  shows "fold (forward_batch chan subs ts) bs =
    fold (\<lambda>(k, s, r). try_forward chan s k r) (calls_of subs (map (batch_response ts) bs))"
  using assms(2)
  by (induction bs) (simp_all add: calls_of_def forward_batch_fold [OF assms(1)])

lemma batch_loop_64:
  "batch_loop VALIDATOR_PACKET_BATCH_SIZE ps [] = map (\<lambda>c. \<lparr>pb_packets = c\<rparr>) (chunks 64 ps)"
  by (simp add: VALIDATOR_PACKET_BATCH_SIZE_def batch_loop_chunks)

lemma forward_packets_sends:
  assumes "subs \<noteq> []" and "ch_timestamp chan w = (ts, w1)"
    and "send_all chan (calls_of subs (batch_responses ts (live_proto_packets pdata batches))) w1 = (rs, w2)"
  shows "forward_packets pdata chan (Ok batches) (subs, w) =
    (Ok (closed_keys rs, of_nat (full_count rs)), w2)"
proof -
  let ?bs = "batch_loop VALIDATOR_PACKET_BATCH_SIZE (live_proto_packets pdata batches) []"
  have ne: "pb_packets b \<noteq> []" if "b \<in> set ?bs" for b
    using that by (auto simp: batch_loop_64 dest: chunks_sizes)
  have "map (batch_response (Some ts)) ?bs = batch_responses ts (live_proto_packets pdata batches)"
    by (simp add: batch_loop_64 batch_responses_def comp_def)
  then show ?thesis
    using assms fold_forward_batch [OF assms(1) ne, where chan = chan and ts = "Some ts"]
    by (simp add: forward_packets_def fold_try_forward)
qed

lemma calls_to_subscriber:
  assumes "hm_invar subs" and "hm_get subs k = Some s"
  shows "filter (\<lambda>c. fst c = k) (calls_of subs rs) = map (\<lambda>r. (k, s, r)) rs"
proof -
  have one: "filter (\<lambda>c. fst c = k) (map (\<lambda>(k, s). (k, s, r)) subs) = [(k, s, r)]" for r
    using assms
  proof (induction subs)
    case Nil
    then show ?case by (simp add: hm_get_def)
  next
    case (Cons kv subs)
    have none: "filter (\<lambda>c. fst c = k) (map (\<lambda>(k, s). (k, s, r)) subs) = []" if "k \<notin> fst ` set subs"
      using that by (force simp: filter_empty_conv)
    show ?case
      using Cons none by (cases kv) (auto simp: hm_get_def hm_invar_def split: if_splits)
  qed
  show ?thesis
    by (induction rs) (use one in \<open>simp_all add: calls_of_def\<close>)
qed

lemma live_proto_packets_units:
  "live_proto_packets pdata batches = List.map_filter (packet_to_proto_packet pdata) (batch_units batches)"
  by (induction batches) (simp_all add: live_proto_packets_def batch_units_def List.map_filter_def)

lemma batch_responses_packets: "concat (map response_packets (batch_responses ts ps)) = ps"
  by (simp add: batch_responses_def comp_def response_packets_def batch_response_def concat_chunks)

section \<open>The subscription table\<close>

lemma hm_invar_drop_connections [simp]: "hm_invar subs \<Longrightarrow> hm_invar (drop_connections ks subs)"
  unfolding drop_connections_def by (induction ks arbitrary: subs) auto

lemma hm_get_drop_connections:
  "hm_invar subs \<Longrightarrow> hm_get (drop_connections ks subs) k = (if k \<in> set ks then None else hm_get subs k)"
  unfolding drop_connections_def by (induction ks arbitrary: subs) (auto simp: hm.get_remove)

lemma hm_len_drop_connections: "hm_invar subs \<Longrightarrow> hm_len (drop_connections ks subs) \<le> hm_len subs"
proof (unfold drop_connections_def, induction ks arbitrary: subs)
  case (Cons k ks)
  have "hm_len (fold hm_remove ks (hm_remove k subs)) \<le> hm_len (hm_remove k subs)"
    using Cons.prems by (intro Cons.IH) simp
  also have "\<dots> \<le> hm_len subs" using Cons.prems by (simp add: hm.len_remove)
  finally show ?case by simp
qed simp

definition subs_ok :: "'s subscriptions \<Rightarrow> bool" where
  "subs_ok subs \<longleftrightarrow> hm_invar subs \<and> hm_len subs \<le> 1"

lemma add_subscription_ok:
  "subs_ok subs \<Longrightarrow> add_subscription k s subs = Ok subs' \<Longrightarrow>
     subs_ok subs' \<and> hm_get subs' = (hm_get subs)(k \<mapsto> s)"
  by (auto simp: add_subscription_def subs_ok_def Let_def hm.len_insert hm.get_insert
      split: option.splits if_splits)

lemma subs_ok_empty [simp]: "subs_ok hm_empty"
  by (simp add: subs_ok_def) (simp add: hm_len_def hm_empty_def)

lemma subs_ok_drop [simp]: "subs_ok subs \<Longrightarrow> subs_ok (drop_connections ks subs)"
  using hm_len_drop_connections [of subs ks] by (simp add: subs_ok_def)

lemma connected_validator_iff:
  assumes "subs_ok subs"
  shows "connected_validator subs = Some k \<longleftrightarrow> hm_get subs k \<noteq> None"
proof -
  consider "subs = []" | k' s where "subs = [(k', s)]"
    using assms by (cases subs; cases "tl subs") (auto simp: subs_ok_def hm_len_def)
  then show ?thesis
    by cases (auto simp: connected_validator_def hm_len_def hm_keys_def hm_get_def)
qed

definition fwd_inv :: "('s, 'w) fwd \<Rightarrow> bool" where
  "fwd_inv st \<longleftrightarrow> subs_ok (fw_subs st) \<and> (fw_result st \<noteq> None \<longrightarrow> fw_exit st \<and> fw_pending st = None)"

inductive_cases fwd_stepE: "fwd_step pdata chan st st'"

lemma fw_subs_loop_sent [simp]: "fw_subs (loop_sent r st) = fw_subs st"
  by (simp add: loop_sent_def split: result.splits prod.splits)

lemma fw_subs_loop_event [simp]: "fw_subs (loop_event pdata chan ev st) = fw_subs st"
  by (cases ev) (simp_all split: prod.splits)

lemma loop_event_result:
  assumes "fw_result st = None" and "fw_pending st = None" and "fw_result (loop_event pdata chan ev st) \<noteq> None"
  shows "fw_pending (loop_event pdata chan ev st) = None \<and> (\<exists>e. fw_result (loop_event pdata chan ev st) = Some (Err e))"
  using assms by (cases ev) (auto simp: loop_sent_def split: prod.splits if_splits result.splits)

lemma event_thread_end_sels [simp]:
  "fw_subs (event_thread_end st) = fw_subs st" "fw_result (event_thread_end st) = fw_result st"
  "fw_pending (event_thread_end st) = fw_pending st"
  "fw_exit (event_thread_end st) \<longleftrightarrow> fw_exit st \<or> (\<exists>e. fw_result st = Some (Err e))"
  by (auto simp: event_thread_end_def split: option.splits result.splits)

lemma subscribe_packets_ok:
  "subs_ok subs \<Longrightarrow> subscribe_packets chan ext (subs, w) = (r, subs', w') \<Longrightarrow> subs_ok subs'"
  using add_subscription_ok
  by (fastforce simp: subscribe_packets_def split: option.splits prod.splits result.splits)

lemma fwd_inv_step: "fwd_inv st \<Longrightarrow> fwd_step pdata chan st st' \<Longrightarrow> fwd_inv st'"
proof (erule fwd_stepE)
  fix ev assume "fwd_inv st" "st' = event_thread_end (loop_event pdata chan ev st)"
    "fw_result st = None" "fw_pending st = None"
  then show ?thesis using loop_event_result [of st pdata chan ev] by (auto simp: fwd_inv_def)
next
  fix ext assume "fwd_inv st" "st' = grpc_subscribe chan ext st"
  then show ?thesis
    by (auto simp: fwd_inv_def grpc_subscribe_def split: prod.splits dest: subscribe_packets_ok)
qed (auto simp: fwd_inv_def loop_drop_def)

interpretation fwd: inductive_invariant "\<lambda>st. \<exists>w. st = fwd_init w" "fwd_step pdata chan" fwd_inv
proof unfold_locales
  show "\<exists>w. st = fwd_init w \<Longrightarrow> fwd_inv st" for st :: "('s, 'w) fwd"
    by (auto simp: fwd_inv_def fwd_init_def)
qed (rule fwd_inv_step)

section \<open>Properties\<close>

text \<open>
  Two channels on a counter: the world holds the number of channels made and how many of them, from the
  oldest, have lost their receiver; a channel holds any number of messages.
\<close>

definition chan_example :: "(nat, nat \<times> nat) chan" where
  "chan_example = \<lparr>ch_new = (\<lambda>_ (n, c). (n, (Suc n, c))),
     ch_try_send = (\<lambda>s _ (n, c). (if s < c then TsClosed else TsOk, (n, c))),
     ch_timestamp = (\<lambda>w. (\<lparr>ts_seconds = 7, ts_nanos = 0\<rparr>, w))\<rparr>"

text \<open>
  C8: For every subscriber \<open>k\<close>, \<open>forward_packets\<close> cuts the live packets of the received batches into
  messages of 64, the last one shorter, none empty, and calls \<open>try_send\<close> once per message and
  subscriber in order; the messages offered to \<open>k\<close> hold exactly the live packets, in order. The failed
  forwards are the subscribers whose channel was closed, once per refused message, and the count is the
  number of sends refused because the channel was full.
\<close>

theorem forward_packets_delivers:
  assumes "hm_invar subs" and "hm_get subs k = Some s" and "ch_timestamp chan w = (ts, w1)"
  shows "let live = List.map_filter (packet_to_proto_packet pdata) (batch_units batches);
      msgs = batch_responses ts live; calls = calls_of subs msgs; (rs, w2) = send_all chan calls w1
    in forward_packets pdata chan (Ok batches) (subs, w) =
         (Ok (closed_keys rs, of_nat (full_count rs)), w2) \<and>
       map fst rs = map fst calls \<and>
       filter (\<lambda>c. fst c = k) calls = map (\<lambda>m. (k, s, m)) msgs \<and>
       concat (map response_packets msgs) = live \<and>
       list_all (\<lambda>m. length (response_packets m) \<in> {1..64}) msgs \<and>
       list_all (\<lambda>m. length (response_packets m) = 64) (butlast msgs)"
proof -
  have ne: "subs \<noteq> []" using assms(2) by (auto simp: hm_get_def)
  let ?ps = "live_proto_packets pdata batches"
  have "list_all (\<lambda>m. length (response_packets m) \<in> {1..64}) (batch_responses ts ?ps)"
    by (auto simp: list_all_iff batch_responses_def response_packets_def batch_response_def Suc_le_eq
        dest: chunks_sizes)
  moreover have "list_all (\<lambda>m. length (response_packets m) = 64) (butlast (batch_responses ts ?ps))"
    by (auto simp: list_all_iff batch_responses_def response_packets_def batch_response_def
        map_butlast [symmetric] dest: chunks_full [rotated])
  ultimately show ?thesis
    using send_all_keys [of chan "calls_of subs (batch_responses ts ?ps)" w1]
    unfolding live_proto_packets_units [symmetric]
    by (simp add: Let_def case_prod_beta batch_responses_packets calls_to_subscriber [OF assms(1,2)]
        forward_packets_sends [OF ne assms(3) surjective_pairing])
qed

theorem forward_packets_delivers_witness:
  "hm_invar [([1], 0 :: nat)] \<and> hm_get [([1], 0 :: nat)] [1] = Some 0 \<and>
   forward_packets (\<lambda>p. Some (pk_buffer p)) chan_example (Ok [[packet_example [5]]]) ([([1], 0)], (1, 1)) =
     (Ok ([[1]], 0), (1, 1))"
proof -
  have *: "hm_invar [([1], 0 :: nat)]" "hm_get [([1], 0 :: nat)] [1] = Some 0"
    by (simp_all add: hm_invar_def hm_get_def)
  have ts: "ch_timestamp chan_example (1, 1) = (\<lparr>ts_seconds = 7, ts_nanos = 0\<rparr>, (1, 1))"
    by (simp add: chan_example_def)
  have live: "List.map_filter (packet_to_proto_packet (\<lambda>p. Some (pk_buffer p))) (batch_units [[packet_example [5]]]) =
      [the (packet_to_proto_packet (\<lambda>p. Some (pk_buffer p)) (packet_example [5]))]"
    by (simp add: batch_units_def packet_example_def meta_example_def List.map_filter_def
        packet_to_proto_packet_def)
  show ?thesis
    using * forward_packets_delivers [OF * ts, of "\<lambda>p. Some (pk_buffer p)" "[[packet_example [5]]]"]
    unfolding live
    by (simp add: Let_def batch_responses_def chunks_short calls_of_def chan_example_def closed_keys_def
        full_count_def)
qed

text \<open>
  C9: In every interleaving of the event loop, subscriptions and receivers at most one validator is
  subscribed, \<open>ConnectedValidator::get\<close> names exactly the subscribed validator, and once the event
  thread has ended the exit flag is set.
\<close>

theorem fwd_reach_one_validator:
  assumes "fwd_reach pdata chan st"
  shows "hm_invar (fw_subs st) \<and> hm_len (fw_subs st) \<le> 1 \<and>
    (connected_validator (fw_subs st) = Some k \<longleftrightarrow> hm_get (fw_subs st) k \<noteq> None) \<and>
    (fw_result st = None \<or> fw_exit st)"
  using fwd.inv_reach [OF assms] connected_validator_iff [of "fw_subs st" k]
  by (auto simp: fwd_inv_def subs_ok_def)

text \<open>
  A run: validator \<open>[1]\<close> subscribes, its receiver goes away, and a heartbeat finds the channel closed.
\<close>

definition fwd_example :: "(nat, nat \<times> nat) fwd" where
  "fwd_example = loop_event (\<lambda>_ :: nat packet. None) chan_example FwHeartbeat
     ((grpc_subscribe chan_example (Some [1]) (fwd_init (0, 0)))\<lparr>fw_world := (1, 1)\<rparr>)"

lemma fwd_example_eq:
  "fwd_example = \<lparr>fw_subs = [([1], 0)], fw_heartbeat_count = 1, fw_dropped_sends = 0, fw_world = (1, 1),
     fw_pending = Some [[1]], fw_result = None, fw_exit = False\<rparr>"
  by (simp add: fwd_example_def fwd_init_def grpc_subscribe_def subscribe_packets_def chan_example_def
      add_subscription_def hm_len_def hm_get_def hm_empty_def hm_insert_def handle_heartbeat_def
      try_forward_def loop_sent_def)

lemma fwd_example_reach: "fwd_reach (\<lambda>_ :: nat packet. None) chan_example fwd_example"
proof -
  let ?p = "\<lambda>_ :: nat packet. None :: bytes option"
  let ?s1 = "grpc_subscribe chan_example (Some [1]) (fwd_init (0, 0))"
  let ?s2 = "?s1\<lparr>fw_world := (1, 1)\<rparr>"
  have "fwd_reach ?p chan_example ?s1"
    by (rule reach_step [OF reach_init]) (blast, rule fwd_step.subscribe)
  then have r: "fwd_reach ?p chan_example ?s2"
    by (rule reach_step) (rule fwd_step.receivers)
  have "fw_result ?s2 = None" "fw_pending ?s2 = None"
    by (simp_all add: grpc_subscribe_def fwd_init_def split: prod.splits)
  then have "fwd_reach ?p chan_example (event_thread_end (loop_event ?p chan_example FwHeartbeat ?s2))"
    by (intro reach_step [OF r]) (rule fwd_step.event)
  moreover have "event_thread_end fwd_example = fwd_example"
    by (simp add: event_thread_end_def fwd_example_eq)
  moreover have "loop_event ?p chan_example FwHeartbeat ?s2 = fwd_example"
    by (simp add: fwd_example_def)
  ultimately show ?thesis by simp
qed

theorem fwd_reach_one_validator_witness:
  "fwd_reach (\<lambda>_ :: nat packet. None) chan_example fwd_example \<and> hm_len (fw_subs fwd_example) = 1 \<and>
   connected_validator (fw_subs fwd_example) = Some [1]"
  using fwd_reach_one_validator [OF fwd_example_reach, of "[1]"] fwd_example_reach
  by (simp add: fwd_example_eq hm_get_def hm_len_def)

text \<open>
  \<open>subscribe_packets\<close> on every branch: without the interceptor's key it fails; a validator takes the
  free table, or replaces its own subscription, and is then the only one; another validator is refused
  with the connected key and the table is unchanged.
\<close>

theorem subscribe_packets_cases:
  assumes "hm_invar subs" and "hm_len subs \<le> 1" and "ch_new chan 50000 w = (s, w')"
  shows "subscribe_packets chan None (subs, w) = (Err MissingPubkey, subs, w) \<and>
    subscribe_packets chan (Some k) (subs, w) =
      (case connected_validator subs of
         None \<Rightarrow> (Ok s, [(k, s)], w')
       | Some c \<Rightarrow> if c = k then (Ok s, [(k, s)], w')
           else (Err (SubscribeRefused (TooManySubscriptions [c])), subs, w'))"
proof -
  consider "subs = []" | k' s' where "subs = [(k', s')]"
    using assms(2) by (cases subs; cases "tl subs") (auto simp: hm_len_def)
  then show ?thesis
    by cases (auto simp: assms(3) subscribe_packets_def SUBSCRIBER_QUEUE_CAPACITY_def add_subscription_def
        connected_validator_def hm_len_def hm_get_def hm_keys_def hm_insert_def)
qed

theorem subscribe_packets_cases_witness:
  "hm_invar [([1], 0 :: nat)] \<and> hm_len [([1], 0 :: nat)] \<le> 1 \<and>
   subscribe_packets chan_example (Some [2]) ([([1], 0)], (1, 0)) =
     (Err (SubscribeRefused (TooManySubscriptions [[1]])), [([1], 0)], (2, 0))"
  using subscribe_packets_cases [of "[([1], 0 :: nat)]" chan_example "(1, 0)" 1 "(2, 0)" "[2]"]
  by (simp add: hm_invar_def hm_len_def chan_example_def connected_validator_def hm_keys_def)



text \<open>
  A heartbeat offers every subscriber one message with the current count and adds one to the count,
  modulo \<open>2 ^ 64\<close>; it reports closed and full channels and never fails.
\<close>

theorem handle_heartbeat_sends:
  "let (rs, w') = send_all chan (calls_of subs [heartbeat_response count]) w
   in handle_heartbeat chan count (subs, w) =
        (Ok (closed_keys rs, of_nat (full_count rs)), count + 1, w') \<and> map fst rs = hm_keys subs"
proof -
  have "fold (\<lambda>(k, s). try_forward chan s k r) subs =
      fold (\<lambda>(k, s, r). try_forward chan s k r) (calls_of subs [r])" for r
    by (simp add: calls_of_def fold_map comp_def case_prod_unfold)
  moreover have "map fst (calls_of subs [r]) = hm_keys subs" for r
    by (simp add: calls_of_def hm_keys_def comp_def case_prod_unfold)
  ultimately show ?thesis
    using send_all_keys [of chan "calls_of subs [heartbeat_response count]" w]
    by (simp add: handle_heartbeat_def fold_try_forward case_prod_beta)
qed

text \<open>
  The validator finds the QUIC port six above the advertised one: for configured ports of at least
  six the advertised port plus six is the port the relayer listens on, for both sockets.
\<close>

theorem get_tpu_configs_ports:
  assumes "6 \<le> tpu" and "6 \<le> fwd"
  shows "map_option sk_port (tc_tpu (get_tpu_configs ip tpu fwd)) = Some (uint tpu - 6) \<and>
    map_option sk_port (tc_tpu_forward (get_tpu_configs ip tpu fwd)) = Some (uint fwd - 6) \<and>
    map_option sk_ip (tc_tpu (get_tpu_configs ip tpu fwd)) = Some (ip_to_string ip)"
  using assms by (simp add: get_tpu_configs_def uint_minus_simple_alt)

theorem get_tpu_configs_ports_witness:
  "(6 :: u16) \<le> 11228 \<and>
   map_option sk_port (tc_tpu (get_tpu_configs (V4 10 0 0 1) 11228 11229)) = Some 11222"
  using get_tpu_configs_ports [of 11228 11229 "V4 10 0 0 1"] by simp

end
