(* ===== verification/Auth_Challenges.thy ===== *)
theory Auth_Challenges
  imports Ip_Parse Forwarder
begin

text \<open>
  The claims of a token (\<open>src/relayer/auth/interceptor.rs\<close>) and the queue of open challenges
  (\<open>src/relayer/auth/challenges.rs\<close>).

  The priority queue with keys, JSON web tokens, ed25519, base58 keys and calendar time belong to other
  crates. \<open>kpq\<close> and \<open>auth_lib\<close> hold their functions; the predicates \<open>kpq_ok\<close>, \<open>jwt_ok\<close>, \<open>pubkey_ok\<close> and
  \<open>time_ok\<close> state what those crates document. Time is a type \<open>'t\<close> with a linear order.
\<close>

section \<open>Library functions\<close>

datatype algorithm_type = Rs256 | OtherAlgorithm nat

record de_ser_claims =
  ds_client_ip :: string
  ds_client_pubkey :: string
  ds_expires_at_unix_ts :: int

record ('t, 'sk, 'vk, 'pk, 'sg) auth_lib =
  al_add :: "'t \<Rightarrow> duration \<Rightarrow> 't"
  al_timestamp :: "'t \<Rightarrow> int"
  al_from_timestamp :: "int \<Rightarrow> 't option"
  al_pubkey_to_string :: "pubkey \<Rightarrow> string"
  al_pubkey_from_str :: "string \<Rightarrow> pubkey option"
  al_pubkey_try_from :: "bytes \<Rightarrow> pubkey option"
  al_public_from_bytes :: "bytes \<Rightarrow> 'pk option"
  al_public_to_bytes :: "'pk \<Rightarrow> bytes"
  al_signature_from_bytes :: "bytes \<Rightarrow> 'sg option"
  al_verify :: "'pk \<Rightarrow> string \<Rightarrow> 'sg \<Rightarrow> bool"
  al_sign_with_key :: "'sk \<Rightarrow> algorithm_type \<Rightarrow> de_ser_claims \<Rightarrow> string option"
  al_verify_with_key :: "'vk \<Rightarrow> string \<Rightarrow> (algorithm_type \<times> de_ser_claims) option"
  al_to_str :: "bytes \<Rightarrow> string option"

text \<open>A token signed with the private key verifies with the public key and holds what was signed.\<close>

definition jwt_ok :: "('t, 'sk, 'vk, 'pk, 'sg) auth_lib \<Rightarrow> 'sk \<Rightarrow> 'vk \<Rightarrow> bool" where
  "jwt_ok lib sk vk \<longleftrightarrow>
     (\<forall>h c t. al_sign_with_key lib sk h c = Some t \<longrightarrow> al_verify_with_key lib vk t = Some (h, c))"

text \<open>A key is made from 32 bytes only and its text form parses back.\<close>

definition pubkey_ok :: "('t, 'sk, 'vk, 'pk, 'sg) auth_lib \<Rightarrow> bool" where
  "pubkey_ok lib \<longleftrightarrow>
     (\<forall>b k. al_pubkey_try_from lib b = Some k \<longleftrightarrow> length b = 32 \<and> k = b) \<and>
     (\<forall>k. length k = 32 \<longrightarrow> al_pubkey_from_str lib (al_pubkey_to_string lib k) = Some k) \<and>
     (\<forall>s k. al_pubkey_from_str lib s = Some k \<longrightarrow> length k = 32)"

text \<open>A time stamp in seconds converts back to the start of its second.\<close>

definition time_ok :: "('t :: linorder, 'sk, 'vk, 'pk, 'sg) auth_lib \<Rightarrow> bool" where
  "time_ok lib \<longleftrightarrow>
     (\<forall>t. \<exists>t'. al_from_timestamp lib (al_timestamp lib t) = Some t' \<and> t' \<le> t \<and>
        al_timestamp lib t' = al_timestamp lib t)"

section \<open>Claims\<close>

record 't claims =
  cl_client_ip :: ip_addr
  cl_client_pubkey :: pubkey
  cl_expires_at_utc :: 't

definition claims_expired :: "'t :: linorder \<Rightarrow> 't claims \<Rightarrow> bool" where
  "claims_expired now c \<longleftrightarrow> cl_expires_at_utc c \<le> now"

text \<open>\<open>Claims::from\<close> unwraps three parses; None is a panic.\<close>

definition claims_from :: "('t, 'sk, 'vk, 'pk, 'sg) auth_lib \<Rightarrow> de_ser_claims \<Rightarrow> 't claims option" where
  "claims_from lib d =
     Option.bind (ip_from_str (ds_client_ip d)) (\<lambda>ip.
       Option.bind (al_pubkey_from_str lib (ds_client_pubkey d)) (\<lambda>k.
         Option.bind (al_from_timestamp lib (ds_expires_at_unix_ts d)) (\<lambda>t.
           Some \<lparr>cl_client_ip = ip, cl_client_pubkey = k, cl_expires_at_utc = t\<rparr>)))"

definition de_ser_claims_from :: "('t, 'sk, 'vk, 'pk, 'sg) auth_lib \<Rightarrow> 't claims \<Rightarrow> de_ser_claims" where
  "de_ser_claims_from lib c =
     \<lparr>ds_client_ip = ip_to_string (cl_client_ip c),
      ds_client_pubkey = al_pubkey_to_string lib (cl_client_pubkey c),
      ds_expires_at_unix_ts = al_timestamp lib (cl_expires_at_utc c)\<rparr>"

lemma claims_from_de_ser:
  assumes "pubkey_ok lib" and "time_ok lib" and "length (cl_client_pubkey c) = 32"
  shows "\<exists>t. claims_from lib (de_ser_claims_from lib c) = Some (c\<lparr>cl_expires_at_utc := t\<rparr>) \<and>
    t \<le> cl_expires_at_utc c \<and> al_timestamp lib t = al_timestamp lib (cl_expires_at_utc c)"
  using assms by (fastforce simp: claims_from_def de_ser_claims_from_def ip_from_str_to_string pubkey_ok_def time_ok_def)

section \<open>Challenges\<close>

record 't auth_challenge =
  ac_challenge :: string
  ac_access_claims :: "'t claims"
  ac_refresh_claims :: "'t claims"
  ac_expires_at_utc :: 't

definition challenge_expired :: "'t :: linorder \<Rightarrow> 't auth_challenge \<Rightarrow> bool" where
  "challenge_expired now c \<longleftrightarrow> ac_expires_at_utc c \<le> now"

text \<open>The order of \<open>Reverse<AuthChallenge>\<close>: the earliest expiry is the greatest priority.\<close>

definition reverse_le :: "'t :: linorder auth_challenge \<Rightarrow> 't auth_challenge \<Rightarrow> bool" where
  "reverse_le a b \<longleftrightarrow> ac_expires_at_utc b \<le> ac_expires_at_utc a"

record ('q, 't) kpq =
  kq_new :: 'q
  kq_peek :: "'q \<Rightarrow> (ip_addr \<times> 't auth_challenge) option"
  kq_pop :: "'q \<Rightarrow> 'q"
  kq_push :: "ip_addr \<Rightarrow> 't auth_challenge \<Rightarrow> 'q \<Rightarrow> 'q"
  kq_len :: "'q \<Rightarrow> nat"
  kq_get_priority :: "'q \<Rightarrow> ip_addr \<Rightarrow> 't auth_challenge option"
  kq_remove :: "ip_addr \<Rightarrow> 'q \<Rightarrow> 'q"

text \<open>
  The documented behaviour of the queue: a map from keys to priorities, where \<open>push\<close> sets the priority of
  a key, \<open>peek\<close> and \<open>pop\<close> see an entry no other entry exceeds, and \<open>len\<close> counts the entries.
\<close>

definition kpq_ok :: "('q, 't :: linorder) kpq \<Rightarrow> bool" where
  "kpq_ok K \<longleftrightarrow>
     kq_get_priority K (kq_new K) = Map.empty \<and>
     (\<forall>k p q. kq_get_priority K (kq_push K k p q) = (kq_get_priority K q)(k \<mapsto> p)) \<and>
     (\<forall>k q. kq_get_priority K (kq_remove K k q) = (kq_get_priority K q)(k := None)) \<and>
     (\<forall>q. finite (dom (kq_get_priority K q)) \<and> kq_len K q = card (dom (kq_get_priority K q))) \<and>
     (\<forall>q. kq_peek K q = None \<longleftrightarrow> kq_get_priority K q = Map.empty) \<and>
     (\<forall>q k p. kq_peek K q = Some (k, p) \<longrightarrow> kq_get_priority K q k = Some p \<and>
        (\<forall>k' p'. kq_get_priority K q k' = Some p' \<longrightarrow> reverse_le p' p) \<and>
        kq_get_priority K (kq_pop K q) = (kq_get_priority K q)(k := None))"

text \<open>\<open>remove_all_expired\<close>; \<open>clk n\<close> is the n-th reading of the clock. None would be a loop without end.\<close>

partial_function (option) remove_all_expired ::
    "('q, 't :: linorder) kpq \<Rightarrow> (nat \<Rightarrow> 't) \<Rightarrow> nat \<Rightarrow> 'q \<Rightarrow> 'q option" where
  "remove_all_expired K clk n inner =
     (case kq_peek K inner of
        None \<Rightarrow> Some inner
      | Some (_, auth_challenge) \<Rightarrow>
          if challenge_expired (clk n) auth_challenge then remove_all_expired K clk (Suc n) (kq_pop K inner)
          else Some inner)"

lemmas kpq_gets = kpq_ok_def [THEN iffD1, THEN conjunct1]
  kpq_ok_def [THEN iffD1, THEN conjunct2, THEN conjunct1, rule_format]
  kpq_ok_def [THEN iffD1, THEN conjunct2, THEN conjunct2, THEN conjunct1, rule_format]

lemma kpq_len:
  "kpq_ok K \<Longrightarrow> finite (dom (kq_get_priority K q)) \<and> kq_len K q = card (dom (kq_get_priority K q))"
  by (simp add: kpq_ok_def)

lemma kpq_peek_None: "kpq_ok K \<Longrightarrow> kq_peek K q = None \<longleftrightarrow> kq_get_priority K q = Map.empty"
  by (simp add: kpq_ok_def)

lemma kpq_peek_Some:
  assumes "kpq_ok K" and "kq_peek K q = Some (k, p)"
  shows "kq_get_priority K q k = Some p"
    and "kq_get_priority K q k' = Some p' \<Longrightarrow> ac_expires_at_utc p \<le> ac_expires_at_utc p'"
    and "kq_get_priority K (kq_pop K q) = (kq_get_priority K q)(k := None)"
    and "kq_len K (kq_pop K q) < kq_len K q"
proof -
  show get: "kq_get_priority K q k = Some p"
    and pop: "kq_get_priority K (kq_pop K q) = (kq_get_priority K q)(k := None)"
    and "kq_get_priority K q k' = Some p' \<Longrightarrow> ac_expires_at_utc p \<le> ac_expires_at_utc p'"
    using assms by (auto simp: kpq_ok_def reverse_le_def)
  have "dom (kq_get_priority K (kq_pop K q)) \<subset> dom (kq_get_priority K q)"
    using get by (auto simp: pop)
  then show "kq_len K (kq_pop K q) < kq_len K q"
    using kpq_len [OF assms(1)] by (simp add: psubset_card_mono)
qed

text \<open>
  The loop ends, keeps entries as they are, leaves none that had expired when it started, and takes out
  only entries that had expired at some reading of the clock.
\<close>

lemma remove_all_expired_result:
  assumes "kpq_ok K" and "mono clk"
  shows "\<exists>q' m. remove_all_expired K clk n q = Some q' \<and>
    (\<forall>ip c. kq_get_priority K q' ip = Some c \<longrightarrow>
       kq_get_priority K q ip = Some c \<and> \<not> challenge_expired (clk n) c) \<and>
    (\<forall>ip c. kq_get_priority K q ip = Some c \<longrightarrow> kq_get_priority K q' ip = None \<longrightarrow>
       challenge_expired (clk m) c)"
proof (induction "kq_len K q" arbitrary: q n rule: less_induct)
  case less
  note unfold = remove_all_expired.simps [of K clk n q]
  show ?case
  proof (cases "kq_peek K q")
    case None
    then have "remove_all_expired K clk n q = Some q" using unfold by simp
    moreover have "kq_get_priority K q = Map.empty" using None kpq_peek_None [OF assms(1)] by simp
    ultimately show ?thesis by simp
  next
    case (Some kp)
    obtain k p where kp: "kq_peek K q = Some (k, p)" using Some by (cases kp) auto
    note pk = kpq_peek_Some [OF assms(1) kp]
    show ?thesis
    proof (cases "challenge_expired (clk n) p")
      case False
      then have "\<not> challenge_expired (clk n) c" if "kq_get_priority K q ip = Some c" for ip c
        using pk(2) [OF that] by (auto simp: challenge_expired_def)
      then show ?thesis using unfold kp False by auto
    next
      case True
      obtain q' m where IH: "remove_all_expired K clk (Suc n) (kq_pop K q) = Some q'"
        "\<And>ip c. kq_get_priority K q' ip = Some c \<Longrightarrow>
           kq_get_priority K (kq_pop K q) ip = Some c \<and> \<not> challenge_expired (clk (Suc n)) c"
        "\<And>ip c. kq_get_priority K (kq_pop K q) ip = Some c \<Longrightarrow> kq_get_priority K q' ip = None \<Longrightarrow>
           challenge_expired (clk m) c"
        using less [OF pk(4), of "Suc n"] by blast
      have le: "clk n \<le> clk (Suc n)" "clk n \<le> clk (max n m)" "clk m \<le> clk (max n m)"
        using assms(2) by (simp_all add: monoD)
      have "remove_all_expired K clk n q = Some q'" using unfold kp True IH(1) by simp
      moreover have "kq_get_priority K q ip = Some c \<and> \<not> challenge_expired (clk n) c"
        if "kq_get_priority K q' ip = Some c" for ip c
        using IH(2) [OF that] le(1) by (auto simp: pk(3) challenge_expired_def split: if_splits)
      moreover have "challenge_expired (clk (max n m)) c"
        if "kq_get_priority K q ip = Some c" "kq_get_priority K q' ip = None" for ip c
        using that IH(3) [of ip c] True pk(1) le(2,3)
        by (cases "ip = k") (auto simp: pk(3) challenge_expired_def)
      ultimately show ?thesis by blast
    qed
  qed
qed

section \<open>A queue\<close>

text \<open>The documented behaviour has an instance: an association list searched for the earliest expiry.\<close>

definition alist_peek :: "(ip_addr \<times> 't :: linorder auth_challenge) list \<Rightarrow> (ip_addr \<times> 't auth_challenge) option" where
  "alist_peek q = (if q = [] then None
     else Some (arg_min_list (\<lambda>(k, c). ac_expires_at_utc c) (AList.clearjunk q)))"

definition kpq_example :: "((ip_addr \<times> 't :: linorder auth_challenge) list, 't) kpq" where
  "kpq_example = \<lparr>kq_new = [], kq_peek = alist_peek,
     kq_pop = (\<lambda>q. case alist_peek q of None \<Rightarrow> q | Some (k, _) \<Rightarrow> AList.delete k q),
     kq_push = AList.update, kq_len = (\<lambda>q. length (AList.clearjunk q)),
     kq_get_priority = map_of, kq_remove = AList.delete\<rparr>"

lemma map_of_entry: "AList.clearjunk q = xs \<Longrightarrow> map_of q k = Some c \<longleftrightarrow> (k, c) \<in> set xs"
  by (metis distinct_clearjunk map_of_clearjunk map_of_eq_Some_iff)

lemma alist_peek_Some:
  assumes "alist_peek q = Some (k, p)"
  shows "map_of q k = Some p" and "map_of q k' = Some p' \<Longrightarrow> ac_expires_at_utc p \<le> ac_expires_at_utc p'"
proof -
  have ne: "AList.clearjunk q \<noteq> []" using assms by (cases q) (simp_all add: alist_peek_def)
  have m: "(k, p) = arg_min_list (\<lambda>(k, c). ac_expires_at_utc c) (AList.clearjunk q)"
    using assms by (simp add: alist_peek_def split: if_splits)
  show "map_of q k = Some p" using arg_min_list_in [OF ne] m by (metis map_of_entry)
  assume "map_of q k' = Some p'"
  then have "(k', p') \<in> set (AList.clearjunk q)" by (simp add: map_of_entry)
  then have "(\<lambda>(k, c). ac_expires_at_utc c) (k, p) \<le> (\<lambda>(k, c). ac_expires_at_utc c) (k', p')"
    unfolding m f_arg_min_list_f [OF ne] by (intro Min_le) auto
  then show "ac_expires_at_utc p \<le> ac_expires_at_utc p'" by simp
qed

lemma alist_peek_None: "alist_peek q = None \<longleftrightarrow> map_of q = Map.empty"
  by (cases q) (auto simp: alist_peek_def fun_eq_iff split: if_splits)

lemma length_clearjunk_card: "length (AList.clearjunk q) = card (dom (map_of q))"
proof -
  have "card (set (map fst (AList.clearjunk q))) = length (map fst (AList.clearjunk q))"
    by (rule distinct_card) simp
  then show ?thesis by (simp add: dom_clearjunk dom_map_of_conv_image_fst)
qed

lemma kpq_ok_example: "kpq_ok kpq_example"
  using alist_peek_Some
  by (auto simp: kpq_ok_def kpq_example_def alist_peek_None length_clearjunk_card update_conv' delete_conv'
      reverse_le_def finite_dom_map_of)

text \<open>
  C27: \<open>remove_all_expired\<close> returns for every queue and, at a time \<open>now\<close>, takes out exactly the challenges
  that have expired by then.
\<close>

theorem remove_all_expired_exact:
  assumes "kpq_ok K"
  shows "\<exists>q'. remove_all_expired K (\<lambda>_. now) 0 q = Some q' \<and>
    kq_get_priority K q' ip =
      (case kq_get_priority K q ip of
         Some c \<Rightarrow> if challenge_expired now c then None else Some c | None \<Rightarrow> None)"
proof -
  obtain q' m where *: "remove_all_expired K (\<lambda>_. now) 0 q = Some q'"
    "\<And>ip c. kq_get_priority K q' ip = Some c \<Longrightarrow> kq_get_priority K q ip = Some c \<and> \<not> challenge_expired now c"
    "\<And>ip c. kq_get_priority K q ip = Some c \<Longrightarrow> kq_get_priority K q' ip = None \<Longrightarrow> challenge_expired now c"
    using remove_all_expired_result [OF assms, of "\<lambda>_. now" 0 q] by (auto simp: mono_def)
  then show ?thesis
    by (cases "kq_get_priority K q' ip"; cases "kq_get_priority K q ip") fastforce+
qed

definition challenge_example :: "nat \<Rightarrow> nat auth_challenge" where
  "challenge_example t =
     \<lparr>ac_challenge = ''abc'',
      ac_access_claims = \<lparr>cl_client_ip = V4 10 0 0 1, cl_client_pubkey = replicate 32 1, cl_expires_at_utc = t\<rparr>,
      ac_refresh_claims = \<lparr>cl_client_ip = V4 10 0 0 1, cl_client_pubkey = replicate 32 1, cl_expires_at_utc = t\<rparr>,
      ac_expires_at_utc = t\<rparr>"

theorem remove_all_expired_exact_witness:
  "kpq_ok (kpq_example :: (_, nat) kpq) \<and>
   (\<exists>q'. remove_all_expired kpq_example (\<lambda>_. 5)
      0 [(V4 10 0 0 1, challenge_example 9), (V4 10 0 0 2, challenge_example 3)] = Some q' \<and>
    kq_get_priority kpq_example q' (V4 10 0 0 2) = None)"
  using kpq_ok_example remove_all_expired_exact [OF kpq_ok_example, where now = "5 :: nat"
      and q = "[(V4 10 0 0 1, challenge_example 9), (V4 10 0 0 2, challenge_example 3)]" and ip = "V4 10 0 0 2"]
  by (simp add: kpq_example_def challenge_expired_def challenge_example_def)

end
