(* ===== verification/Auth_Service.thy ===== *)
theory Auth_Service
  imports Auth_Challenges
begin

text \<open>
  \<open>src/relayer/auth/service.rs\<close>: \<open>generate_auth_challenge\<close>, \<open>generate_auth_tokens\<close> and
  \<open>refresh_access_token\<close> with every early return, and the expiry task.

  A handler takes the lock of the challenge queue for single calls, so other requests may run between
  them: \<open>env n\<close> is what they do to the queue before the n-th call. \<open>clk n\<close> is the n-th reading of the
  clock and \<open>rng\<close> the random letters of a challenge. A status of the code is a value of \<open>status\<close>; a panic
  is \<open>Panicked\<close>.
\<close>

datatype status =
    InvalidArgument string
  | PermissionDenied string
  | ResourceExhausted string
  | Internal string
  | Panicked

definition AUTH_CHALLENGES_CAPACITY :: nat where "AUTH_CHALLENGES_CAPACITY = 100000"
definition ACCESS_TOKEN_TTL :: duration where "ACCESS_TOKEN_TTL = from_secs 1800"
definition REFRESH_TOKEN_TTL :: duration where "REFRESH_TOKEN_TTL = from_secs 180000"
definition CHALLENGE_TTL :: duration where "CHALLENGE_TTL = from_secs 1800"

datatype role = RELAYER | SEARCHER | VALIDATOR | SHREDSTREAM_SUBSCRIBER

fun role_as_i32 :: "role \<Rightarrow> int" where
  "role_as_i32 RELAYER = 0"
| "role_as_i32 SEARCHER = 1"
| "role_as_i32 VALIDATOR = 2"
| "role_as_i32 SHREDSTREAM_SUBSCRIBER = 3"

record ('t, 'sk, 'vk, 'pk, 'sg, 'q) auth_service =
  sv_lib :: "('t, 'sk, 'vk, 'pk, 'sg) auth_lib"
  sv_queue :: "('q, 't) kpq"
  sv_is_authorized :: "pubkey \<Rightarrow> bool"
  sv_signing_key :: 'sk
  sv_verifying_key :: 'vk

text \<open>\<open>ValidatorAutherImpl::is_authorized\<close>.\<close>

definition validator_auther_impl :: "pubkey \<Rightarrow> bool" where
  "validator_auther_impl _ = True"

definition client_ip :: "ip_addr option \<Rightarrow> (ip_addr, status) result" where
  "client_ip remote_addr =
     (case remote_addr of None \<Rightarrow> Err (Internal ''Request is missing IP address'') | Some ip \<Rightarrow> Ok ip)"

definition check_health :: "(unit, status) result" where
  "check_health = Ok ()"

definition generate_challenge_token :: "(nat \<Rightarrow> char) \<Rightarrow> string" where
  "generate_challenge_token rng = map rng [0..<9]"

definition ok_or :: "'e \<Rightarrow> 'a option \<Rightarrow> ('a, 'e) result" where
  "ok_or e x = (case x of None \<Rightarrow> Err e | Some y \<Rightarrow> Ok y)"

definition ensure :: "bool \<Rightarrow> 'e \<Rightarrow> (unit, 'e) result" where
  "ensure b e = (if b then Ok () else Err e)"

section \<open>generate\_auth\_challenge\<close>

record challenge_request =
  cr_remote_addr :: "ip_addr option"
  cr_role :: int
  cr_pubkey :: bytes

definition new_challenge :: "('t, 'sk, 'vk, 'pk, 'sg, 'q) auth_service \<Rightarrow> (nat \<Rightarrow> char) \<Rightarrow> (nat \<Rightarrow> 't) \<Rightarrow>
    ip_addr \<Rightarrow> challenge_request \<Rightarrow> ('t auth_challenge, status) result" where
  "new_challenge sv rng clk ip req =
     and_then (ensure (cr_role req = role_as_i32 VALIDATOR) (InvalidArgument ''Role must be validator.'')) (\<lambda>_.
     and_then (ensure (length (cr_pubkey req) = 32) (InvalidArgument ''Pubkey must be 32 bytes in length'')) (\<lambda>_.
     and_then (ok_or (InvalidArgument ''Invalid pubkey supplied.'')
       (al_pubkey_try_from (sv_lib sv) (cr_pubkey req))) (\<lambda>pubkey.
     and_then (ensure (sv_is_authorized sv pubkey)
       (PermissionDenied ''The supplied pubkey is not authorized to generate a challenge.'')) (\<lambda>_.
     Ok \<lparr>ac_challenge = generate_challenge_token rng,
       ac_access_claims = \<lparr>cl_client_ip = ip, cl_client_pubkey = pubkey,
         cl_expires_at_utc = al_add (sv_lib sv) (clk 1) ACCESS_TOKEN_TTL\<rparr>,
       ac_refresh_claims = \<lparr>cl_client_ip = ip, cl_client_pubkey = pubkey,
         cl_expires_at_utc = al_add (sv_lib sv) (clk 2) REFRESH_TOKEN_TTL\<rparr>,
       ac_expires_at_utc = al_add (sv_lib sv) (clk 3) CHALLENGE_TTL\<rparr>))))"

definition generate_auth_challenge :: "('t :: linorder, 'sk, 'vk, 'pk, 'sg, 'q) auth_service \<Rightarrow>
    (nat \<Rightarrow> 'q \<Rightarrow> 'q) \<Rightarrow> (nat \<Rightarrow> char) \<Rightarrow> (nat \<Rightarrow> 't) \<Rightarrow> challenge_request \<Rightarrow> 'q \<Rightarrow>
    (string, status) result \<times> 'q" where
  "generate_auth_challenge sv env rng clk req q =
     (case check_health of Err e \<Rightarrow> (Err e, q) | Ok _ \<Rightarrow>
       (let q1 = env 0 q
        in if kq_len (sv_queue sv) q1 \<ge> AUTH_CHALLENGES_CAPACITY
           then (Err (ResourceExhausted ''System overloaded.''), q1)
           else (case client_ip (cr_remote_addr req) of Err e \<Rightarrow> (Err e, q1) | Ok ip \<Rightarrow>
             (let q2 = env 1 q1;
                make = (case new_challenge sv rng clk ip req of
                  Err e \<Rightarrow> (Err e, q2)
                | Ok auth_challenge \<Rightarrow>
                    (Ok (ac_challenge auth_challenge), kq_push (sv_queue sv) ip auth_challenge (env 2 q2)))
              in case kq_get_priority (sv_queue sv) q2 ip of
                   Some auth_challenge \<Rightarrow>
                     if \<not> challenge_expired (clk 0) auth_challenge then (Ok (ac_challenge auth_challenge), q2)
                     else make
                 | None \<Rightarrow> make))))"

section \<open>generate\_auth\_tokens\<close>

record tokens_request =
  tr_remote_addr :: "ip_addr option"
  tr_challenge :: string
  tr_client_pubkey :: bytes
  tr_signed_challenge :: bytes

record pb_token =
  tk_value :: string
  tk_expires_at_utc :: "timestamp option"

record tokens_response =
  to_access_token :: "pb_token option"
  to_refresh_token :: "pb_token option"

definition sign_claims :: "('t, 'sk, 'vk, 'pk, 'sg, 'q) auth_service \<Rightarrow> string \<Rightarrow> de_ser_claims \<Rightarrow>
    (string, status) result" where
  "sign_claims sv msg claims =
     ok_or (Internal msg) (al_sign_with_key (sv_lib sv) (sv_signing_key sv) Rs256 claims)"

definition pb_token_of :: "('t, 'sk, 'vk, 'pk, 'sg, 'q) auth_service \<Rightarrow> string \<Rightarrow> 't \<Rightarrow> pb_token option" where
  "pb_token_of sv value expiry =
     Some \<lparr>tk_value = value,
       tk_expires_at_utc = Some \<lparr>ts_seconds = al_timestamp (sv_lib sv) expiry, ts_nanos = 0\<rparr>\<rparr>"

definition expected_challenge :: "('t, 'sk, 'vk, 'pk, 'sg) auth_lib \<Rightarrow> pubkey \<Rightarrow> string \<Rightarrow> string" where
  "expected_challenge lib pubkey challenge = al_pubkey_to_string lib pubkey @ ''-'' @ challenge"

text \<open>The checks and signatures once the entry of the client's address has been looked up.\<close>

definition redeem_challenge :: "('t, 'sk, 'vk, 'pk, 'sg, 'q) auth_service \<Rightarrow> 'pk \<Rightarrow> pubkey \<Rightarrow>
    't auth_challenge \<Rightarrow> tokens_request \<Rightarrow> (tokens_response, status) result" where
  "redeem_challenge sv client_pubkey solana_pubkey auth_challenge req =
     and_then (ensure (cl_client_pubkey (ac_access_claims auth_challenge) = solana_pubkey) (PermissionDenied
       ''The pubkey provided does not match the pubkey that generated the challenge.'')) (\<lambda>_.
     (let expected = expected_challenge (sv_lib sv) solana_pubkey (ac_challenge auth_challenge) in
     and_then (ensure (expected = tr_challenge req) (InvalidArgument
       (''The provided challenge does not match the expected challenge: '' @ expected))) (\<lambda>_.
     and_then (ensure (length (tr_signed_challenge req) = 64)
       (InvalidArgument ''Signature must be 64 bytes.'')) (\<lambda>_.
     and_then (ok_or (InvalidArgument ''Invalid signature.'')
       (array_try_from 64 (tr_signed_challenge req))) (\<lambda>sig_bytes.
     and_then (ok_or (InvalidArgument ''Invalid signature.'')
       (al_signature_from_bytes (sv_lib sv) sig_bytes)) (\<lambda>signed_challenge.
     and_then (ensure (al_verify (sv_lib sv) client_pubkey (tr_challenge req) signed_challenge)
       (InvalidArgument (''Failed challenge verification. Did you sign with the supplied pubkey's '' @
         ''corresponding private key?''))) (\<lambda>_.
     and_then (sign_claims sv ''Error signing access_token.''
       (de_ser_claims_from (sv_lib sv) (ac_access_claims auth_challenge))) (\<lambda>access_token.
     and_then (sign_claims sv ''Error signing refresh_token.''
       (de_ser_claims_from (sv_lib sv) (ac_refresh_claims auth_challenge))) (\<lambda>refresh_token.
     Ok \<lparr>to_access_token =
           pb_token_of sv access_token (cl_expires_at_utc (ac_access_claims auth_challenge)),
         to_refresh_token =
           pb_token_of sv refresh_token (cl_expires_at_utc (ac_refresh_claims auth_challenge))\<rparr>)))))))))"

definition tokens_keys :: "('t, 'sk, 'vk, 'pk, 'sg) auth_lib \<Rightarrow> tokens_request \<Rightarrow> ('pk \<times> pubkey, status) result" where
  "tokens_keys lib req =
     and_then (ok_or (InvalidArgument ''Invalid pubkey supplied.'')
       (al_public_from_bytes lib (tr_client_pubkey req))) (\<lambda>client_pubkey.
     and_then (ok_or (InvalidArgument ''Invalid pubkey supplied.'')
       (al_pubkey_try_from lib (al_public_to_bytes lib client_pubkey))) (\<lambda>solana_pubkey.
     Ok (client_pubkey, solana_pubkey)))"

definition generate_auth_tokens :: "('t, 'sk, 'vk, 'pk, 'sg, 'q) auth_service \<Rightarrow>
    (nat \<Rightarrow> 'q \<Rightarrow> 'q) \<Rightarrow> tokens_request \<Rightarrow> 'q \<Rightarrow> (tokens_response, status) result \<times> 'q" where
  "generate_auth_tokens sv env req q =
     (case and_then check_health (\<lambda>_. client_ip (tr_remote_addr req)) of Err e \<Rightarrow> (Err e, q) | Ok ip \<Rightarrow>
       (case tokens_keys (sv_lib sv) req of Err e \<Rightarrow> (Err e, q) | Ok (client_pubkey, solana_pubkey) \<Rightarrow>
         (let q1 = env 0 q
          in case kq_get_priority (sv_queue sv) q1 ip of
               None \<Rightarrow> (Err (PermissionDenied
                 ''Must invoke the GenerateAuthChallenge method before calling any method.''), q1)
             | Some auth_challenge \<Rightarrow>
                 (case redeem_challenge sv client_pubkey solana_pubkey auth_challenge req of
                    Err e \<Rightarrow> (Err e, q1)
                  | Ok response \<Rightarrow> (Ok response, kq_remove (sv_queue sv) ip (env 1 q1))))))"

section \<open>refresh\_access\_token\<close>

definition refresh_access_token :: "('t :: linorder, 'sk, 'vk, 'pk, 'sg, 'q) auth_service \<Rightarrow> (nat \<Rightarrow> 't) \<Rightarrow>
    string \<Rightarrow> (pb_token option, status) result" where
  "refresh_access_token sv clk refresh_token =
     and_then check_health (\<lambda>_.
     and_then (ok_or (PermissionDenied ''Invalid refresh_token supplied'')
       (al_verify_with_key (sv_lib sv) (sv_verifying_key sv) refresh_token)) (\<lambda>(_, de_ser).
     and_then (ok_or Panicked (claims_from (sv_lib sv) de_ser)) (\<lambda>refresh_claims.
     and_then (ensure (\<not> claims_expired (clk 0) refresh_claims)
       (PermissionDenied (''Client refresh_token has expired, please generate a new auth challenge '' @
         ''to obtain a set of new access tokens.''))) (\<lambda>_.
     (let expires_at_utc = al_add (sv_lib sv) (clk 1) ACCESS_TOKEN_TTL;
        access_claims = de_ser_claims_from (sv_lib sv) \<lparr>cl_client_ip = cl_client_ip refresh_claims,
          cl_client_pubkey = cl_client_pubkey refresh_claims, cl_expires_at_utc = expires_at_utc\<rparr>
      in and_then (sign_claims sv ''Error signing access_token.'' access_claims) (\<lambda>access_token.
         Ok (pb_token_of sv access_token expires_at_utc)))))))"

section \<open>start\_challenge\_expiration\_task\<close>

text \<open>One entry of the list per round: the exit flag is down, the tick is over, the clock reads \<open>clk\<close>.\<close>

fun expiration_task :: "('q, 't :: linorder) kpq \<Rightarrow> ((nat \<Rightarrow> 't) \<times> ('q \<Rightarrow> 'q)) list \<Rightarrow> 'q \<Rightarrow> 'q option" where
  "expiration_task K [] q = Some q"
| "expiration_task K ((clk, env) # rounds) q =
     (case remove_all_expired K clk 0 (env q) of None \<Rightarrow> None | Some q' \<Rightarrow> expiration_task K rounds q')"

section \<open>Lemmas\<close>

lemma ok_or_eq_Ok [simp]: "ok_or e x = Ok y \<longleftrightarrow> x = Some y"
  by (simp add: ok_or_def split: option.splits)

lemma ensure_eq_Ok [simp]: "ensure b e = Ok u \<longleftrightarrow> b"
  by (simp add: ensure_def)

lemma client_ip_eq_Ok [simp]: "client_ip r = Ok ip \<longleftrightarrow> r = Some ip"
  by (simp add: client_ip_def split: option.splits)

lemma tokens_keys_eq_Ok:
  "tokens_keys lib req = Ok (pk, k) \<longleftrightarrow> al_public_from_bytes lib (tr_client_pubkey req) = Some pk \<and>
     al_pubkey_try_from lib (al_public_to_bytes lib pk) = Some k"
  by (auto simp: tokens_keys_def)

text \<open>The signature in the request verifies, under the key in the request, over key and challenge.\<close>

definition proves_possession :: "('t, 'sk, 'vk, 'pk, 'sg) auth_lib \<Rightarrow> tokens_request \<Rightarrow> pubkey \<Rightarrow> string \<Rightarrow> bool" where
  "proves_possession lib req k challenge \<longleftrightarrow>
     (\<exists>pk sg. al_public_from_bytes lib (tr_client_pubkey req) = Some pk \<and>
        al_pubkey_try_from lib (al_public_to_bytes lib pk) = Some k \<and>
        tr_challenge req = expected_challenge lib k challenge \<and>
        length (tr_signed_challenge req) = 64 \<and>
        al_signature_from_bytes lib (tr_signed_challenge req) = Some sg \<and>
        al_verify lib pk (tr_challenge req) sg)"

definition issued_tokens :: "('t, 'sk, 'vk, 'pk, 'sg, 'q) auth_service \<Rightarrow> 't auth_challenge \<Rightarrow> tokens_response \<Rightarrow> bool" where
  "issued_tokens sv c resp \<longleftrightarrow>
     (\<exists>at rt.
        al_sign_with_key (sv_lib sv) (sv_signing_key sv) Rs256 (de_ser_claims_from (sv_lib sv) (ac_access_claims c)) = Some at \<and>
        al_sign_with_key (sv_lib sv) (sv_signing_key sv) Rs256 (de_ser_claims_from (sv_lib sv) (ac_refresh_claims c)) = Some rt \<and>
        resp = \<lparr>to_access_token = pb_token_of sv at (cl_expires_at_utc (ac_access_claims c)),
          to_refresh_token = pb_token_of sv rt (cl_expires_at_utc (ac_refresh_claims c))\<rparr>)"

lemma redeem_challenge_eq_Ok:
  assumes "tokens_keys (sv_lib sv) req = Ok (pk, k)"
  shows "redeem_challenge sv pk k c req = Ok resp \<longleftrightarrow>
    cl_client_pubkey (ac_access_claims c) = k \<and> proves_possession (sv_lib sv) req k (ac_challenge c) \<and>
    issued_tokens sv c resp"
  using assms
  by (auto simp: redeem_challenge_def Let_def tokens_keys_eq_Ok proves_possession_def issued_tokens_def
      array_try_from_def sign_claims_def)

lemma generate_auth_tokens_eq_Ok:
  "generate_auth_tokens sv env req q = (Ok resp, q') \<longleftrightarrow>
     (\<exists>ip c. tr_remote_addr req = Some ip \<and> kq_get_priority (sv_queue sv) (env 0 q) ip = Some c \<and>
        proves_possession (sv_lib sv) req (cl_client_pubkey (ac_access_claims c)) (ac_challenge c) \<and>
        issued_tokens sv c resp \<and> q' = kq_remove (sv_queue sv) ip (env 1 (env 0 q)))"
proof (cases "tokens_keys (sv_lib sv) req")
  case (Ok pkk)
  obtain pk k where [simp]: "pkk = (pk, k)" by (cases pkk)
  have k: "k' = k" if "proves_possession (sv_lib sv) req k' ch" for k' ch
    using that Ok by (auto simp: proves_possession_def tokens_keys_eq_Ok)
  show ?thesis
  proof (cases "tr_remote_addr req")
    case None
    then show ?thesis by (simp add: generate_auth_tokens_def check_health_def client_ip_def)
  next
    case (Some ip)
    note run = Let_def Some Ok generate_auth_tokens_def check_health_def client_ip_def
    show ?thesis
    proof (cases "kq_get_priority (sv_queue sv) (env 0 q) ip")
      case None
      then show ?thesis by (simp add: run)
    next
      case (Some c)
      have iff: "redeem_challenge sv pk k c req = Ok resp \<longleftrightarrow> cl_client_pubkey (ac_access_claims c) = k \<and>
          proves_possession (sv_lib sv) req k (ac_challenge c) \<and> issued_tokens sv c resp"
        using Ok by (intro redeem_challenge_eq_Ok) simp
      have "generate_auth_tokens sv env req q = (case redeem_challenge sv pk k c req of
          Err e \<Rightarrow> (Err e, env 0 q) | Ok r \<Rightarrow> (Ok r, kq_remove (sv_queue sv) ip (env 1 (env 0 q))))"
        using Some by (simp add: run)
      then have "generate_auth_tokens sv env req q = (Ok resp, q') \<longleftrightarrow>
          redeem_challenge sv pk k c req = Ok resp \<and> q' = kq_remove (sv_queue sv) ip (env 1 (env 0 q))"
        by (cases "redeem_challenge sv pk k c req") auto
      then show ?thesis
        using iff Some \<open>tr_remote_addr req = Some ip\<close> k [of "cl_client_pubkey (ac_access_claims c)" "ac_challenge c"]
        by auto
    qed
  qed
next
  case (Err e)
  then have "\<not> proves_possession (sv_lib sv) req k' ch" for k' ch
    by (auto simp: proves_possession_def tokens_keys_def check_health_def ok_or_def split: option.splits)
  then show ?thesis using Err
    by (simp add: generate_auth_tokens_def split: result.splits)
qed

lemma new_challenge_eq_Ok:
  "new_challenge sv rng clk ip req = Ok c \<longleftrightarrow>
     cr_role req = role_as_i32 VALIDATOR \<and> length (cr_pubkey req) = 32 \<and>
     (\<exists>k. al_pubkey_try_from (sv_lib sv) (cr_pubkey req) = Some k \<and> sv_is_authorized sv k \<and>
       c = \<lparr>ac_challenge = generate_challenge_token rng,
         ac_access_claims = \<lparr>cl_client_ip = ip, cl_client_pubkey = k,
           cl_expires_at_utc = al_add (sv_lib sv) (clk 1) ACCESS_TOKEN_TTL\<rparr>,
         ac_refresh_claims = \<lparr>cl_client_ip = ip, cl_client_pubkey = k,
           cl_expires_at_utc = al_add (sv_lib sv) (clk 2) REFRESH_TOKEN_TTL\<rparr>,
         ac_expires_at_utc = al_add (sv_lib sv) (clk 3) CHALLENGE_TTL\<rparr>)"
  by (auto simp: new_challenge_def)

lemma generate_auth_challenge_cases:
  assumes "cr_remote_addr req = Some ip"
  shows "generate_auth_challenge sv env rng clk req q =
    (let q1 = env 0 q; q2 = env 1 q1
     in if kq_len (sv_queue sv) q1 \<ge> 100000 then (Err (ResourceExhausted ''System overloaded.''), q1)
        else if \<exists>c. kq_get_priority (sv_queue sv) q2 ip = Some c \<and> \<not> challenge_expired (clk 0) c
        then (Ok (ac_challenge (the (kq_get_priority (sv_queue sv) q2 ip))), q2)
        else (case new_challenge sv rng clk ip req of Err e \<Rightarrow> (Err e, q2)
              | Ok c \<Rightarrow> (Ok (ac_challenge c), kq_push (sv_queue sv) ip c (env 2 q2))))"
  using assms
  by (auto simp: generate_auth_challenge_def Let_def check_health_def client_ip_def AUTH_CHALLENGES_CAPACITY_def
      split: option.splits)

lemma claims_with_expiry:
  "\<lparr>cl_client_ip = cl_client_ip c, cl_client_pubkey = cl_client_pubkey c, cl_expires_at_utc = e\<rparr> =
     c\<lparr>cl_expires_at_utc := e\<rparr>"
  by (cases c) simp

lemma refresh_access_token_eq_Ok:
  "refresh_access_token sv clk t = Ok r \<longleftrightarrow>
     (\<exists>h d c at. al_verify_with_key (sv_lib sv) (sv_verifying_key sv) t = Some (h, d) \<and>
        claims_from (sv_lib sv) d = Some c \<and> \<not> claims_expired (clk 0) c \<and>
        al_sign_with_key (sv_lib sv) (sv_signing_key sv) Rs256 (de_ser_claims_from (sv_lib sv)
          (c\<lparr>cl_expires_at_utc := al_add (sv_lib sv) (clk 1) ACCESS_TOKEN_TTL\<rparr>)) = Some at \<and>
        r = pb_token_of sv at (al_add (sv_lib sv) (clk 1) ACCESS_TOKEN_TTL))"
  by (auto simp: refresh_access_token_def Let_def sign_claims_def check_health_def claims_with_expiry)

section \<open>A service\<close>

text \<open>
  An instance of the parameters: keys are written byte by byte, a signature is the key twice, time counts
  nanoseconds, and the token of some claims is a letter.
\<close>

definition key_example :: pubkey where "key_example = replicate 32 1"
definition ip_example :: ip_addr where "ip_example = V4 10 0 0 1"

definition text_of :: "bytes \<Rightarrow> string" where "text_of b = map (\<lambda>x. char_of (unat x)) b"
definition bytes_of :: "string \<Rightarrow> bytes" where "bytes_of s = map (\<lambda>c. of_nat (of_char c)) s"

lemma bytes_of_text_of [simp]: "bytes_of (text_of b) = b"
  using unat_u8_less by (auto simp: bytes_of_def text_of_def intro!: map_idI)

definition claims_example :: "nat \<Rightarrow> nat claims" where
  "claims_example t = \<lparr>cl_client_ip = ip_example, cl_client_pubkey = key_example, cl_expires_at_utc = t\<rparr>"

definition de_ser_example :: "nat \<Rightarrow> de_ser_claims" where
  "de_ser_example t = \<lparr>ds_client_ip = ip_to_string ip_example, ds_client_pubkey = text_of key_example,
     ds_expires_at_unix_ts = int t\<rparr>"

definition token_table :: "(de_ser_claims \<times> string) list" where
  "token_table = [(de_ser_example (from_secs 1800), ''a''), (de_ser_example (from_secs 180000), ''r'')]"

definition lib_example :: "(nat, unit, unit, bytes, bytes) auth_lib" where
  "lib_example =
     \<lparr>al_add = (\<lambda>t d. t + d), al_timestamp = int, al_from_timestamp = (\<lambda>s. if s < 0 then None else Some (nat s)),
      al_pubkey_to_string = text_of,
      al_pubkey_from_str = (\<lambda>s. if length s = 32 then Some (bytes_of s) else None),
      al_pubkey_try_from = array_try_from 32, al_public_from_bytes = array_try_from 32,
      al_public_to_bytes = (\<lambda>k. k), al_signature_from_bytes = Some, al_verify = (\<lambda>k m sg. sg = k @ k),
      al_sign_with_key = (\<lambda>_ h c. if h = Rs256 then map_of token_table c else None),
      al_verify_with_key = (\<lambda>_ t. map_option (\<lambda>c. (Rs256, c)) (map_of (map (\<lambda>(c, t). (t, c)) token_table) t)),
      al_to_str = (\<lambda>b. Some (text_of b))\<rparr>"

definition service_example :: "(nat, unit, unit, bytes, bytes, (ip_addr \<times> nat auth_challenge) list) auth_service" where
  "service_example = \<lparr>sv_lib = lib_example, sv_queue = kpq_example, sv_is_authorized = validator_auther_impl,
     sv_signing_key = (), sv_verifying_key = ()\<rparr>"

lemma length_text_of [simp]: "length (text_of b) = length b"
  by (simp add: text_of_def)

lemma length_bytes_of [simp]: "length (bytes_of s) = length s"
  by (simp add: bytes_of_def)

lemma lib_example_ok: "jwt_ok lib_example () ()" "pubkey_ok lib_example" "time_ok lib_example"
  by (auto simp: jwt_ok_def pubkey_ok_def time_ok_def lib_example_def token_table_def de_ser_example_def
      from_secs_def array_try_from_def split: if_splits)

definition req_example :: challenge_request where
  "req_example = \<lparr>cr_remote_addr = Some ip_example, cr_role = 2, cr_pubkey = key_example\<rparr>"

definition tokens_req_example :: tokens_request where
  "tokens_req_example = \<lparr>tr_remote_addr = Some ip_example, tr_challenge = text_of key_example @ ''-xxxxxxxxx'',
     tr_client_pubkey = key_example, tr_signed_challenge = key_example @ key_example\<rparr>"

definition new_example :: "nat auth_challenge" where
  "new_example = \<lparr>ac_challenge = ''xxxxxxxxx'', ac_access_claims = claims_example (from_secs 1800),
     ac_refresh_claims = claims_example (from_secs 180000), ac_expires_at_utc = from_secs 1800\<rparr>"

lemmas service_example_simps = service_example_def lib_example_def array_try_from_def key_example_def
  ip_example_def req_example_def tokens_req_example_def new_example_def claims_example_def

lemma new_challenge_example:
  "new_challenge service_example (\<lambda>_. CHR ''x'') (\<lambda>_. 0) ip_example req_example = Ok new_example"
  by (simp add: new_challenge_eq_Ok service_example_simps validator_auther_impl_def generate_challenge_token_def
      ACCESS_TOKEN_TTL_def REFRESH_TOKEN_TTL_def CHALLENGE_TTL_def upt_rec)

definition resp_example :: tokens_response where
  "resp_example = \<lparr>to_access_token = pb_token_of service_example ''a'' (from_secs 1800),
     to_refresh_token = pb_token_of service_example ''r'' (from_secs 180000)\<rparr>"

lemma proves_possession_example: "proves_possession lib_example tokens_req_example key_example ''xxxxxxxxx''"
  by (simp add: proves_possession_def service_example_simps expected_challenge_def)

lemma sign_example:
  "al_sign_with_key lib_example () Rs256 (de_ser_example (from_secs 1800)) = Some ''a''"
  "al_sign_with_key lib_example () Rs256 (de_ser_example (from_secs 180000)) = Some ''r''"
  by (simp_all add: lib_example_def token_table_def de_ser_example_def from_secs_def)

lemma issued_tokens_example: "issued_tokens service_example new_example resp_example"
proof -
  have "de_ser_claims_from lib_example (claims_example t) = de_ser_example t"
    and "cl_expires_at_utc (claims_example t) = t" for t
    by (simp_all add: de_ser_claims_from_def claims_example_def de_ser_example_def lib_example_def)
  moreover have "sv_lib service_example = lib_example" "sv_signing_key service_example = ()"
    by (simp_all add: service_example_def)
  ultimately show ?thesis
    by (simp add: issued_tokens_def new_example_def resp_example_def sign_example)
qed

section \<open>Properties\<close>

text \<open>
  C25: \<open>generate_auth_tokens\<close> hands out tokens exactly when the queue holds a challenge for the client's
  address, made for the key in the request, and the request carries a valid signature by that key over
  key and challenge; the tokens are the signed claims of the challenge, and the challenge is removed.
\<close>

theorem generate_auth_tokens_exact:
  "fst (generate_auth_tokens sv env req q) = Ok resp \<longleftrightarrow>
     (\<exists>ip c. tr_remote_addr req = Some ip \<and> kq_get_priority (sv_queue sv) (env 0 q) ip = Some c \<and>
        proves_possession (sv_lib sv) req (cl_client_pubkey (ac_access_claims c)) (ac_challenge c) \<and>
        issued_tokens sv c resp \<and>
        snd (generate_auth_tokens sv env req q) = kq_remove (sv_queue sv) ip (env 1 (env 0 q)))"
  using generate_auth_tokens_eq_Ok [of sv env req q resp "snd (generate_auth_tokens sv env req q)"]
    generate_auth_tokens_eq_Ok [of sv env req q resp]
  by (metis fst_conv prod.collapse)

text \<open>
  A redeemed challenge is gone: when nothing intervenes, the same request, or any other from the same
  address, gets no tokens from the queue a successful call leaves.
\<close>

theorem generate_auth_tokens_no_replay:
  assumes "kpq_ok (sv_queue sv)" and "generate_auth_tokens sv (\<lambda>_ q. q) req q = (Ok resp, q')"
    and "tr_remote_addr req' = tr_remote_addr req"
  shows "fst (generate_auth_tokens sv (\<lambda>_ q. q) req' q') \<noteq> Ok resp'"
proof
  assume "fst (generate_auth_tokens sv (\<lambda>_ q. q) req' q') = Ok resp'"
  then obtain q'' where "generate_auth_tokens sv (\<lambda>_ q. q) req' q' = (Ok resp', q'')"
    by (cases "generate_auth_tokens sv (\<lambda>_ q. q) req' q'") auto
  then show False
    using assms by (auto simp: generate_auth_tokens_eq_Ok kpq_gets)
qed

lemma generate_auth_tokens_example:
  "generate_auth_tokens service_example (\<lambda>_ q. q) tokens_req_example [(ip_example, new_example)] =
     (Ok resp_example, [])"
  using proves_possession_example issued_tokens_example
  by (simp add: generate_auth_tokens_eq_Ok)
     (simp add: service_example_def kpq_example_def tokens_req_example_def new_example_def claims_example_def)

theorem generate_auth_tokens_no_replay_witness:
  "generate_auth_tokens service_example (\<lambda>_ q. q) tokens_req_example [(ip_example, new_example)] =
     (Ok resp_example, []) \<and>
   fst (generate_auth_tokens service_example (\<lambda>_ q. q) tokens_req_example []) \<noteq> Ok resp_example"
  using generate_auth_tokens_example kpq_ok_example
    generate_auth_tokens_no_replay [OF _ generate_auth_tokens_example, of tokens_req_example resp_example]
  by (simp add: service_example_def)

text \<open>
  A challenge that \<open>generate_auth_challenge\<close> returns is in the queue under the client's address: it is
  the open challenge of that address, or a new one for the key and role of the request whose claims name
  key and address. A refusal leaves the queue to the other requests.
\<close>

theorem generate_auth_challenge_stored:
  assumes "kpq_ok (sv_queue sv)" and "generate_auth_challenge sv env rng clk req q = (r, q')"
    and "cr_remote_addr req = Some ip"
  shows "(case r of
      Ok ch \<Rightarrow> (\<exists>c. kq_get_priority (sv_queue sv) q' ip = Some c \<and> ac_challenge c = ch \<and>
        (if \<exists>c0. kq_get_priority (sv_queue sv) (env 1 (env 0 q)) ip = Some c0 \<and> \<not> challenge_expired (clk 0) c0
         then q' = env 1 (env 0 q)
         else new_challenge sv rng clk ip req = Ok c \<and> q' = kq_push (sv_queue sv) ip c (env 2 (env 1 (env 0 q)))))
    | Err e \<Rightarrow> q' = env 0 q \<or> q' = env 1 (env 0 q))"
  using assms(1,2)
  by (auto simp: generate_auth_challenge_cases [OF assms(3)] Let_def kpq_gets
      split: if_splits result.splits)

theorem generate_auth_challenge_stored_witness:
  "kpq_ok (sv_queue service_example) \<and>
   (\<exists>q'. generate_auth_challenge service_example (\<lambda>_ q. q) (\<lambda>_. CHR ''x'') (\<lambda>_. 0) req_example [] =
      (Ok ''xxxxxxxxx'', q') \<and> (\<exists>c. kq_get_priority (sv_queue service_example) q' ip_example = Some c))"
proof -
  have ip: "cr_remote_addr req_example = Some ip_example" by (simp add: req_example_def)
  have ok: "kpq_ok (sv_queue service_example)" by (simp add: service_example_def kpq_ok_example)
  have run: "generate_auth_challenge service_example (\<lambda>_ q. q) (\<lambda>_. CHR ''x'') (\<lambda>_. 0) req_example [] =
      (Ok ''xxxxxxxxx'', kq_push (sv_queue service_example) ip_example new_example [])"
    unfolding generate_auth_challenge_cases [OF ip] new_challenge_example
    by (simp add: service_example_def kpq_example_def) (simp add: new_example_def)
  show ?thesis using ok run generate_auth_challenge_stored [OF ok run ip] by auto
qed

text \<open>
  When nothing intervenes between its accesses to the queue, \<open>generate_auth_challenge\<close> keeps the number
  of open challenges within the capacity of 100000.
\<close>

theorem generate_auth_challenge_capacity:
  assumes "kpq_ok (sv_queue sv)" and "kq_len (sv_queue sv) q \<le> 100000"
  shows "kq_len (sv_queue sv) (snd (generate_auth_challenge sv (\<lambda>_ q. q) rng clk req q)) \<le> 100000"
proof (cases "cr_remote_addr req")
  case None
  then show ?thesis using assms(2)
    by (simp add: generate_auth_challenge_def check_health_def client_ip_def)
next
  case (Some ip)
  have "kq_len (sv_queue sv) (kq_push (sv_queue sv) ip c q) \<le> Suc (kq_len (sv_queue sv) q)" for c
    using kpq_len [OF assms(1)] by (simp add: kpq_gets(2) [OF assms(1)] card_insert_if)
  then have "kq_len (sv_queue sv) (kq_push (sv_queue sv) ip c q) \<le> 100000"
    if "kq_len (sv_queue sv) q < 100000" for c
    using that by (meson Suc_leI le_trans)
  then show ?thesis
    using assms(2) unfolding generate_auth_challenge_cases [OF Some]
    by (simp add: Let_def split: result.split)
qed

theorem generate_auth_challenge_capacity_witness:
  "kpq_ok (sv_queue service_example) \<and>
   kq_len (sv_queue service_example)
     (snd (generate_auth_challenge service_example (\<lambda>_ q. q) (\<lambda>_. CHR ''x'') (\<lambda>_. 0) req_example [])) \<le> 100000"
proof -
  have "kpq_ok (sv_queue service_example)" by (simp add: service_example_def kpq_ok_example)
  moreover have "kq_len (sv_queue service_example) [] \<le> 100000" by (simp add: service_example_def kpq_example_def)
  ultimately show ?thesis by (blast intro: generate_auth_challenge_capacity)
qed

text \<open>
  C26: A refreshed access token names the address and key of the refresh token, which verified and had not
  expired, and its own expiry is the second in which the 1800 seconds from now end.
\<close>

theorem refresh_access_token_identity:
  assumes "jwt_ok (sv_lib sv) (sv_signing_key sv) (sv_verifying_key sv)"
    and "pubkey_ok (sv_lib sv)" and "time_ok (sv_lib sv)"
    and "refresh_access_token sv clk t = Ok r"
  shows "\<exists>h d c tok d' c'.
    al_verify_with_key (sv_lib sv) (sv_verifying_key sv) t = Some (h, d) \<and>
    claims_from (sv_lib sv) d = Some c \<and> \<not> claims_expired (clk 0) c \<and> r = Some tok \<and>
    al_verify_with_key (sv_lib sv) (sv_verifying_key sv) (tk_value tok) = Some (Rs256, d') \<and>
    claims_from (sv_lib sv) d' = Some c' \<and> cl_client_ip c' = cl_client_ip c \<and>
    cl_client_pubkey c' = cl_client_pubkey c \<and>
    cl_expires_at_utc c' \<le> al_add (sv_lib sv) (clk 1) (from_secs 1800) \<and>
    al_timestamp (sv_lib sv) (cl_expires_at_utc c') =
      al_timestamp (sv_lib sv) (al_add (sv_lib sv) (clk 1) (from_secs 1800))"
proof -
  let ?e = "al_add (sv_lib sv) (clk 1) (from_secs 1800)"
  obtain h d c at where v: "al_verify_with_key (sv_lib sv) (sv_verifying_key sv) t = Some (h, d)"
    "claims_from (sv_lib sv) d = Some c" "\<not> claims_expired (clk 0) c" "r = pb_token_of sv at ?e"
    "al_sign_with_key (sv_lib sv) (sv_signing_key sv) Rs256 (de_ser_claims_from (sv_lib sv) (c\<lparr>cl_expires_at_utc := ?e\<rparr>)) = Some at"
    using assms(4) by (auto simp: refresh_access_token_eq_Ok ACCESS_TOKEN_TTL_def)
  have "length (cl_client_pubkey c) = 32"
    using v(2) assms(2) by (auto simp: claims_from_def pubkey_ok_def Option.bind_eq_Some_conv)
  then obtain t' where "claims_from (sv_lib sv) (de_ser_claims_from (sv_lib sv) (c\<lparr>cl_expires_at_utc := ?e\<rparr>)) =
      Some (c\<lparr>cl_expires_at_utc := t'\<rparr>)" "t' \<le> ?e" "al_timestamp (sv_lib sv) t' = al_timestamp (sv_lib sv) ?e"
    using claims_from_de_ser [OF assms(2,3), of "c\<lparr>cl_expires_at_utc := ?e\<rparr>"] by auto
  moreover have "al_verify_with_key (sv_lib sv) (sv_verifying_key sv) at =
      Some (Rs256, de_ser_claims_from (sv_lib sv) (c\<lparr>cl_expires_at_utc := ?e\<rparr>))"
    using assms(1) v(5) by (simp add: jwt_ok_def)
  ultimately show ?thesis
    using v(1-4) by (simp add: pb_token_of_def)
qed

lemma refresh_example:
  "refresh_access_token service_example (\<lambda>_. 0) ''r'' = Ok (pb_token_of service_example ''a'' (from_secs 1800))"
proof -
  have v: "al_verify_with_key lib_example () ''r'' = Some (Rs256, de_ser_example (from_secs 180000))"
    by (simp add: lib_example_def token_table_def)
  have c: "claims_from lib_example (de_ser_example t) = Some (claims_example t)" for t
    by (simp add: claims_from_def de_ser_example_def ip_from_str_to_string claims_example_def)
       (simp add: lib_example_def key_example_def)
  have d: "de_ser_claims_from lib_example ((claims_example t)\<lparr>cl_expires_at_utc := al_add lib_example 0 e\<rparr>) = de_ser_example e" for t e
    by (simp add: de_ser_claims_from_def claims_example_def de_ser_example_def lib_example_def)
  have s: "sv_lib service_example = lib_example" "sv_signing_key service_example = ()"
      "sv_verifying_key service_example = ()" "al_add lib_example 0 e = e" for e
    by (simp_all add: service_example_def lib_example_def)
  show ?thesis
    unfolding refresh_access_token_eq_Ok s v
    using c d sign_example(1)
    by (simp add: ACCESS_TOKEN_TTL_def s claims_expired_def) (simp add: claims_example_def from_secs_def)
qed

theorem refresh_access_token_identity_witness:
  "refresh_access_token service_example (\<lambda>_. 0) ''r'' = Ok (pb_token_of service_example ''a'' (from_secs 1800)) \<and>
   (\<exists>h d c. al_verify_with_key lib_example () ''r'' = Some (h, d) \<and> claims_from lib_example d = Some c \<and>
     \<not> claims_expired 0 c)"
proof -
  have s: "sv_lib service_example = lib_example" "sv_signing_key service_example = ()"
      "sv_verifying_key service_example = ()"
    by (simp_all add: service_example_def)
  show ?thesis
    using refresh_example refresh_access_token_identity [OF _ _ _ refresh_example] lib_example_ok
    unfolding s by blast
qed

end
