(* ===== verification/Auth_Interceptor.thy ===== *)
theory Auth_Interceptor
  imports Auth_Service
begin

text \<open>
  The interceptor in front of the relayer service (\<open>src/relayer/auth/interceptor.rs\<close>), and the
  authentication system as a whole: the sections of the handlers under the lock of the challenge queue as
  steps, in every interleaving, with the sets of challenges pushed, requests redeemed and tokens handed
  out so far. That nobody else can make tokens is the assumption \<open>unforged\<close> on the tokens presented.
\<close>

section \<open>The interceptor\<close>

definition BEARER :: string where "BEARER = ''Bearer ''"

text \<open>\<open>str::split\<close> with a non-empty pattern; \<open>cur\<close> is the piece being read.\<close>

function split_str :: "string \<Rightarrow> string \<Rightarrow> string \<Rightarrow> string list" where
  "split_str pat cur [] = [cur]"
| "split_str pat cur (c # cs) =
     (if pat \<noteq> [] \<and> take (length pat) (c # cs) = pat then cur # split_str pat [] (drop (length pat) (c # cs))
      else split_str pat (cur @ [c]) cs)"
  by pat_completeness auto
termination
  by (relation "measure (\<lambda>(pat, cur, s). length s)") (auto simp: less_Suc_eq_le neq_Nil_conv)

definition bearer_token :: "('t, 'sk, 'vk, 'pk, 'sg) auth_lib \<Rightarrow> (string \<Rightarrow> bytes option) \<Rightarrow> (string, status) result" where
  "bearer_token lib meta =
     (case meta ''authorization'' of
        None \<Rightarrow> Err (PermissionDenied ''The authorization header is missing.'')
      | Some value \<Rightarrow>
          and_then (ok_or (InvalidArgument ''Failed to parse authorization header.'') (al_to_str lib value)) (\<lambda>auth_header.
            if take (length BEARER) auth_header \<noteq> BEARER
            then Err (PermissionDenied (''Invalid authorization header format. '' @
              ''Must conform to `Authorization: Bearer ${token}`.''))
            else let split = split_str BEARER [] auth_header
              in if length split \<noteq> 2 then Err (PermissionDenied ''Missing jwt token.'') else Ok (split ! 1)))"

definition jwt_from_header :: "('t, 'sk, 'vk, 'pk, 'sg) auth_lib \<Rightarrow> 'vk \<Rightarrow> algorithm_type \<Rightarrow>
    (string \<Rightarrow> bytes option) \<Rightarrow> (de_ser_claims, status) result" where
  "jwt_from_header lib verifying_key expected_signing_algo meta =
     and_then (bearer_token lib meta) (\<lambda>token.
     and_then (ok_or (PermissionDenied ''Token failed verification.'')
       (al_verify_with_key lib verifying_key token)) (\<lambda>(algorithm, claims).
     if algorithm = expected_signing_algo then Ok claims else Err Panicked))"

record 'vk auth_interceptor =
  ai_verifying_key :: 'vk
  ai_expected_signing_algo :: algorithm_type

definition auth_interceptor_new :: "'vk \<Rightarrow> algorithm_type \<Rightarrow> 'vk auth_interceptor" where
  "auth_interceptor_new verifying_key expected_signing_algo =
     \<lparr>ai_verifying_key = verifying_key, ai_expected_signing_algo = expected_signing_algo\<rparr>"

text \<open>\<open>Interceptor::call\<close>: the key it puts into the extensions of the request.\<close>

definition interceptor_call :: "('t, 'sk, 'vk, 'pk, 'sg) auth_lib \<Rightarrow> 'vk \<Rightarrow> algorithm_type \<Rightarrow>
    (string \<Rightarrow> bytes option) \<Rightarrow> (pubkey, status) result" where
  "interceptor_call lib verifying_key expected_signing_algo meta =
     and_then (jwt_from_header lib verifying_key expected_signing_algo meta) (\<lambda>de_ser.
     and_then (ok_or Panicked (claims_from lib de_ser)) (\<lambda>claims.
     Ok (cl_client_pubkey claims)))"

text \<open>
  \<open>RelayerServer::with_interceptor\<close>: a request for packets reaches the forwarder with the key of the
  interceptor, or is refused.
\<close>

datatype admit_error = Refused status | NotSubscribed subscribe_error

definition subscribe_authenticated :: "('t, 'sk, 'vk, 'pk, 'sg) auth_lib \<Rightarrow> 'vk \<Rightarrow> ('s, 'w) chan \<Rightarrow>
    (string \<Rightarrow> bytes option) \<Rightarrow> 's subscriptions \<times> 'w \<Rightarrow> ('s, admit_error) result \<times> 's subscriptions \<times> 'w" where
  "subscribe_authenticated lib verifying_key chan meta sw =
     (case interceptor_call lib verifying_key Rs256 meta of
        Err e \<Rightarrow> (Err (Refused e), sw)
      | Ok pubkey \<Rightarrow>
          (case subscribe_packets chan (Some pubkey) sw of
             (Err e, sw') \<Rightarrow> (Err (NotSubscribed e), sw')
           | (Ok s, sw') \<Rightarrow> (Ok s, sw')))"

lemma split_str_no_space:
  assumes "CHR '' '' \<notin> set t"
  shows "split_str BEARER cur t = [cur @ t]"
  using assms
proof (induction t arbitrary: cur)
  case (Cons c t)
  have "CHR '' '' \<notin> set (take (length BEARER) (c # t))" using Cons.prems by (meson in_set_takeD)
  moreover have "CHR '' '' \<in> set BEARER" by (simp add: BEARER_def)
  ultimately have "take (length BEARER) (c # t) \<noteq> BEARER" by metis
  then show ?case using Cons by simp
qed simp

lemma split_str_bearer: "CHR '' '' \<notin> set t \<Longrightarrow> split_str BEARER [] (BEARER @ t) = [[], t]"
proof -
  assume t: "CHR '' '' \<notin> set t"
  obtain b bs where b: "BEARER = b # bs" by (simp add: BEARER_def)
  have "split_str BEARER [] (b # bs @ t) = [] # split_str BEARER [] (drop (length BEARER) (b # bs @ t))"
    by (subst split_str.simps) (simp add: b)
  then show ?thesis using split_str_no_space [OF t, of "[]"] by (simp add: b)
qed

lemma bearer_token_bearer:
  "meta ''authorization'' = Some v \<Longrightarrow> al_to_str lib v = Some (BEARER @ t) \<Longrightarrow> CHR '' '' \<notin> set t \<Longrightarrow>
     bearer_token lib meta = Ok t"
  by (simp add: bearer_token_def ok_or_def split_str_bearer)

lemma interceptor_call_eq_Ok:
  "interceptor_call lib vk algo meta = Ok k \<longleftrightarrow>
     (\<exists>t d c. bearer_token lib meta = Ok t \<and> al_verify_with_key lib vk t = Some (algo, d) \<and>
        claims_from lib d = Some c \<and> cl_client_pubkey c = k)"
  by (auto simp: interceptor_call_def jwt_from_header_def split: if_splits)

section \<open>The system\<close>

record ('q, 't) auth_state =
  as_queue :: 'q
  as_pushed :: "(ip_addr \<times> 't auth_challenge) set"
  as_redeemed :: "tokens_request set"
  as_tokens :: "string set"

definition auth_init :: "('t, 'sk, 'vk, 'pk, 'sg, 'q) auth_service \<Rightarrow> ('q, 't) auth_state" where
  "auth_init sv = \<lparr>as_queue = kq_new (sv_queue sv), as_pushed = {}, as_redeemed = {}, as_tokens = {}\<rparr>"

definition response_tokens :: "tokens_response \<Rightarrow> string set" where
  "response_tokens r = tk_value ` (set_option (to_access_token r) \<union> set_option (to_refresh_token r))"

definition unforged :: "('t, 'sk, 'vk, 'pk, 'sg, 'q) auth_service \<Rightarrow> string set \<Rightarrow> string \<Rightarrow> bool" where
  "unforged sv tokens t \<longleftrightarrow>
     (\<forall>h d. al_verify_with_key (sv_lib sv) (sv_verifying_key sv) t = Some (h, d) \<longrightarrow>
        (\<exists>t' \<in> tokens. al_verify_with_key (sv_lib sv) (sv_verifying_key sv) t' = Some (h, d)))"

inductive auth_step :: "('t :: linorder, 'sk, 'vk, 'pk, 'sg, 'q) auth_service \<Rightarrow>
    ('q, 't) auth_state \<Rightarrow> ('q, 't) auth_state \<Rightarrow> bool" for sv where
  push: "new_challenge sv rng clk ip req = Ok c \<Longrightarrow>
    auth_step sv st (st\<lparr>as_queue := kq_push (sv_queue sv) ip c (as_queue st),
      as_pushed := insert (ip, c) (as_pushed st)\<rparr>)"
| redeem: "tr_remote_addr req = Some ip \<Longrightarrow> tokens_keys (sv_lib sv) req = Ok (pk, k) \<Longrightarrow>
    kq_get_priority (sv_queue sv) (as_queue st) ip = Some c \<Longrightarrow> redeem_challenge sv pk k c req = Ok resp \<Longrightarrow>
    auth_step sv st (st\<lparr>as_redeemed := insert req (as_redeemed st),
      as_tokens := response_tokens resp \<union> as_tokens st\<rparr>)"
| remove: "auth_step sv st (st\<lparr>as_queue := kq_remove (sv_queue sv) ip (as_queue st)\<rparr>)"
| sweep: "remove_all_expired (sv_queue sv) clk 0 (as_queue st) = Some q \<Longrightarrow> mono clk \<Longrightarrow>
    auth_step sv st (st\<lparr>as_queue := q\<rparr>)"
| refresh: "unforged sv (as_tokens st) t \<Longrightarrow> refresh_access_token sv clk t = Ok (Some tok) \<Longrightarrow>
    auth_step sv st (st\<lparr>as_tokens := insert (tk_value tok) (as_tokens st)\<rparr>)"

abbreviation auth_reach :: "('t :: linorder, 'sk, 'vk, 'pk, 'sg, 'q) auth_service \<Rightarrow> ('q, 't) auth_state \<Rightarrow> bool" where
  "auth_reach sv \<equiv> reach (\<lambda>st. st = auth_init sv) (auth_step sv)"

text \<open>
  Claims are backed when a client proved possession of the key, from the address, with a challenge
  that the service had made for that key and address.
\<close>

definition backed :: "('t, 'sk, 'vk, 'pk, 'sg, 'q) auth_service \<Rightarrow> ('q, 't) auth_state \<Rightarrow> ip_addr \<Rightarrow> pubkey \<Rightarrow> bool" where
  "backed sv st ip k \<longleftrightarrow>
     (\<exists>c req. (ip, c) \<in> as_pushed st \<and> cl_client_pubkey (ac_access_claims c) = k \<and> length k = 32 \<and>
        req \<in> as_redeemed st \<and> tr_remote_addr req = Some ip \<and>
        proves_possession (sv_lib sv) req k (ac_challenge c))"

definition backed_claims :: "('t, 'sk, 'vk, 'pk, 'sg, 'q) auth_service \<Rightarrow> ('q, 't) auth_state \<Rightarrow> de_ser_claims \<Rightarrow> bool" where
  "backed_claims sv st d \<longleftrightarrow>
     (\<exists>ip k. backed sv st ip k \<and> ds_client_ip d = ip_to_string ip \<and>
        ds_client_pubkey d = al_pubkey_to_string (sv_lib sv) k)"

definition challenge_wf :: "ip_addr \<Rightarrow> 't auth_challenge \<Rightarrow> bool" where
  "challenge_wf ip c \<longleftrightarrow>
     cl_client_ip (ac_access_claims c) = ip \<and> cl_client_ip (ac_refresh_claims c) = ip \<and>
     cl_client_pubkey (ac_refresh_claims c) = cl_client_pubkey (ac_access_claims c) \<and>
     length (cl_client_pubkey (ac_access_claims c)) = 32"

definition auth_inv :: "('t, 'sk, 'vk, 'pk, 'sg, 'q) auth_service \<Rightarrow> ('q, 't) auth_state \<Rightarrow> bool" where
  "auth_inv sv st \<longleftrightarrow>
     (\<forall>ip c. kq_get_priority (sv_queue sv) (as_queue st) ip = Some c \<longrightarrow> (ip, c) \<in> as_pushed st) \<and>
     (\<forall>ip c. (ip, c) \<in> as_pushed st \<longrightarrow> challenge_wf ip c) \<and>
     (\<forall>t h d. t \<in> as_tokens st \<longrightarrow> al_verify_with_key (sv_lib sv) (sv_verifying_key sv) t = Some (h, d) \<longrightarrow>
        backed_claims sv st d)"

definition service_ok :: "('t :: linorder, 'sk, 'vk, 'pk, 'sg, 'q) auth_service \<Rightarrow> bool" where
  "service_ok sv \<longleftrightarrow> kpq_ok (sv_queue sv) \<and> pubkey_ok (sv_lib sv) \<and>
     jwt_ok (sv_lib sv) (sv_signing_key sv) (sv_verifying_key sv)"

lemma backed_claims_mono:
  "backed_claims sv st d \<Longrightarrow> as_pushed st \<subseteq> as_pushed st' \<Longrightarrow> as_redeemed st \<subseteq> as_redeemed st' \<Longrightarrow>
     backed_claims sv st' d"
  unfolding backed_claims_def backed_def by blast

lemma sign_verify:
  "service_ok sv \<Longrightarrow> al_sign_with_key (sv_lib sv) (sv_signing_key sv) h d = Some t \<Longrightarrow>
     al_verify_with_key (sv_lib sv) (sv_verifying_key sv) t = Some (h, d)"
  by (simp add: service_ok_def jwt_ok_def)

lemma auth_inv_push:
  assumes "service_ok sv" and "auth_inv sv st" and "new_challenge sv rng clk ip req = Ok c"
  shows "auth_inv sv (st\<lparr>as_queue := kq_push (sv_queue sv) ip c (as_queue st),
    as_pushed := insert (ip, c) (as_pushed st)\<rparr>)" (is "auth_inv sv ?st'")
proof -
  have "challenge_wf ip c"
    using assms(1,3) by (auto simp: new_challenge_eq_Ok challenge_wf_def service_ok_def pubkey_ok_def)
  moreover have "backed_claims sv ?st' d" if "backed_claims sv st d" for d
    using that by (rule backed_claims_mono) auto
  ultimately show ?thesis
    using assms(1,2) by (auto simp: auth_inv_def service_ok_def kpq_gets split: if_splits)
qed

lemma auth_inv_redeem:
  assumes "service_ok sv" and "auth_inv sv st" and "tr_remote_addr req = Some ip"
    and "tokens_keys (sv_lib sv) req = Ok (pk, k)"
    and "kq_get_priority (sv_queue sv) (as_queue st) ip = Some c" and "redeem_challenge sv pk k c req = Ok resp"
  shows "auth_inv sv (st\<lparr>as_redeemed := insert req (as_redeemed st),
    as_tokens := response_tokens resp \<union> as_tokens st\<rparr>)" (is "auth_inv sv ?st'")
proof -
  have c: "(ip, c) \<in> as_pushed st" "challenge_wf ip c" using assms(2,5) by (auto simp: auth_inv_def)
  have k: "cl_client_pubkey (ac_access_claims c) = k" "proves_possession (sv_lib sv) req k (ac_challenge c)"
    and iss: "issued_tokens sv c resp"
    using assms(6) by (auto simp: redeem_challenge_eq_Ok [OF assms(4)])
  have "backed sv ?st' ip k" using c k assms(3) by (auto simp: backed_def challenge_wf_def)
  then have "backed_claims sv ?st' (de_ser_claims_from (sv_lib sv) (ac_access_claims c))"
    and "backed_claims sv ?st' (de_ser_claims_from (sv_lib sv) (ac_refresh_claims c))"
    using c(2) k(1) by (auto simp: backed_claims_def de_ser_claims_from_def challenge_wf_def)
  then have "backed_claims sv ?st' d"
    if "t \<in> response_tokens resp" "al_verify_with_key (sv_lib sv) (sv_verifying_key sv) t = Some (h, d)" for t h d
    using that iss sign_verify [OF assms(1)]
    by (auto simp: issued_tokens_def response_tokens_def pb_token_of_def)
  moreover have "backed_claims sv ?st' d" if "backed_claims sv st d" for d
    using that by (rule backed_claims_mono) auto
  ultimately show ?thesis using assms(2) by (auto simp: auth_inv_def)
qed

lemma backed_claims_from:
  assumes "service_ok sv" and "backed_claims sv st d" and "claims_from (sv_lib sv) d = Some c"
  shows "backed sv st (cl_client_ip c) (cl_client_pubkey c)"
proof -
  obtain ip k where b: "backed sv st ip k" "ds_client_ip d = ip_to_string ip"
      "ds_client_pubkey d = al_pubkey_to_string (sv_lib sv) k"
    using assms(2) by (auto simp: backed_claims_def)
  have "length k = 32" using b(1) by (auto simp: backed_def)
  then have "al_pubkey_from_str (sv_lib sv) (ds_client_pubkey d) = Some k"
    using assms(1) b(3) by (simp add: service_ok_def pubkey_ok_def)
  moreover have "ip_from_str (ds_client_ip d) = Some ip" by (simp add: b(2) ip_from_str_to_string)
  ultimately have "cl_client_ip c = ip" "cl_client_pubkey c = k"
    using assms(3) by (auto simp: claims_from_def Option.bind_eq_Some_conv)
  then show ?thesis using b(1) by simp
qed

lemma unforged_backed:
  assumes "auth_inv sv st" and "unforged sv (as_tokens st) t"
    and "al_verify_with_key (sv_lib sv) (sv_verifying_key sv) t = Some (h, d)"
  shows "backed_claims sv st d"
  using assms unfolding auth_inv_def unforged_def by blast

lemma auth_inv_refresh:
  assumes "service_ok sv" and "auth_inv sv st" and "unforged sv (as_tokens st) t"
    and "refresh_access_token sv clk t = Ok (Some tok)"
  shows "auth_inv sv (st\<lparr>as_tokens := insert (tk_value tok) (as_tokens st)\<rparr>)" (is "auth_inv sv ?st'")
proof -
  obtain h d c e at where v: "al_verify_with_key (sv_lib sv) (sv_verifying_key sv) t = Some (h, d)"
    "claims_from (sv_lib sv) d = Some c"
    "al_sign_with_key (sv_lib sv) (sv_signing_key sv) Rs256 (de_ser_claims_from (sv_lib sv) (c\<lparr>cl_expires_at_utc := e\<rparr>)) = Some at"
    "tk_value tok = at"
    using assms(4) by (auto simp: refresh_access_token_eq_Ok pb_token_of_def)
  have "backed sv st (cl_client_ip c) (cl_client_pubkey c)"
    using unforged_backed [OF assms(2,3) v(1)] v(2) by (rule backed_claims_from [OF assms(1)])
  then have "backed_claims sv ?st' (de_ser_claims_from (sv_lib sv) (c\<lparr>cl_expires_at_utc := e\<rparr>))"
    by (auto simp: backed_claims_def de_ser_claims_from_def backed_def)
  moreover have "backed_claims sv ?st' d" if "backed_claims sv st d" for d
    using that by (rule backed_claims_mono) auto
  ultimately show ?thesis
    using assms(2) sign_verify [OF assms(1) v(3)] v(4) by (auto simp: auth_inv_def)
qed

lemma auth_inv_queue:
  assumes "auth_inv sv st"
    and "\<And>ip c. kq_get_priority (sv_queue sv) q ip = Some c \<Longrightarrow>
      kq_get_priority (sv_queue sv) (as_queue st) ip = Some c"
  shows "auth_inv sv (st\<lparr>as_queue := q\<rparr>)"
  using assms by (auto simp: auth_inv_def backed_claims_def backed_def)

lemma auth_inv_step:
  assumes "service_ok sv" and "auth_inv sv st" and "auth_step sv st st'"
  shows "auth_inv sv st'"
  using assms(3)
proof cases
  case (push rng clk ip req c)
  then show ?thesis using auth_inv_push [OF assms(1,2)] by simp
next
  case (redeem req ip pk k c resp)
  then show ?thesis using auth_inv_redeem [OF assms(1,2)] by simp
next
  case (remove ip)
  then show ?thesis
    using assms(1,2) by (auto intro!: auth_inv_queue simp: service_ok_def kpq_gets split: if_splits)
next
  case (sweep clk q)
  have "kq_get_priority (sv_queue sv) (as_queue st) ip = Some c"
    if "kq_get_priority (sv_queue sv) q ip = Some c" for ip c
    using that remove_all_expired_result [of "sv_queue sv" clk 0 "as_queue st"] sweep(2,3) assms(1)
    by (auto simp: service_ok_def)
  then show ?thesis using sweep(1) assms(2) by (simp add: auth_inv_queue)
next
  case (refresh t clk tok)
  then show ?thesis using auth_inv_refresh [OF assms(1,2)] by simp
qed

interpretation auth: inductive_invariant "\<lambda>st. st = auth_init sv" "auth_step sv"
  "\<lambda>st. service_ok sv \<longrightarrow> auth_inv sv st"
proof unfold_locales
  show "st = auth_init sv \<Longrightarrow> service_ok sv \<longrightarrow> auth_inv sv st" for st
    by (simp add: auth_inv_def auth_init_def service_ok_def kpq_gets)
qed (blast intro: auth_inv_step)

section \<open>Handlers as runs\<close>

text \<open>What other requests do between two accesses of a handler is itself a run of steps.\<close>

definition env_steps :: "('t :: linorder, 'sk, 'vk, 'pk, 'sg, 'q) auth_service \<Rightarrow> (nat \<Rightarrow> 'q \<Rightarrow> 'q) \<Rightarrow> bool" where
  "env_steps sv env \<longleftrightarrow>
     (\<forall>n st. \<exists>st'. (auth_step sv)\<^sup>*\<^sup>* st st' \<and> as_queue st' = env n (as_queue st))"

lemma env_stepsE:
  assumes "env_steps sv env"
  obtains st' where "(auth_step sv)\<^sup>*\<^sup>* st st'" and "as_queue st' = env n (as_queue st)"
  using assms unfolding env_steps_def by blast

lemma auth_steps_mono:
  "(auth_step sv)\<^sup>*\<^sup>* st st' \<Longrightarrow> as_tokens st \<subseteq> as_tokens st' \<and> as_redeemed st \<subseteq> as_redeemed st'"
proof (induction rule: rtranclp_induct)
  case (step st' st'')
  from step.hyps(2) have "as_tokens st' \<subseteq> as_tokens st'' \<and> as_redeemed st' \<subseteq> as_redeemed st''"
    by cases auto
  then show ?case using step.IH by blast
qed simp

lemma generate_auth_challenge_steps:
  assumes "env_steps sv env"
  shows "\<exists>st'. (auth_step sv)\<^sup>*\<^sup>* st st' \<and>
    as_queue st' = snd (generate_auth_challenge sv env rng clk req (as_queue st))"
proof -
  obtain st1 where st1: "(auth_step sv)\<^sup>*\<^sup>* st st1" "as_queue st1 = env 0 (as_queue st)"
    using env_stepsE [OF assms] by metis
  obtain st2 where st2: "(auth_step sv)\<^sup>*\<^sup>* st st2" "as_queue st2 = env 1 (env 0 (as_queue st))"
    using env_stepsE [OF assms, of st1 1] st1 by (metis rtranclp_trans)
  obtain st3 where st3: "(auth_step sv)\<^sup>*\<^sup>* st st3" "as_queue st3 = env 2 (env 1 (env 0 (as_queue st)))"
    using env_stepsE [OF assms, of st2 2] st2 by (metis rtranclp_trans)
  have push: "\<exists>st'. (auth_step sv)\<^sup>*\<^sup>* st st' \<and> as_queue st' = kq_push (sv_queue sv) ip c (as_queue st3)"
    if "new_challenge sv rng clk ip req = Ok c" for ip c
    using auth_step.push [OF that, of st3] st3(1) by (fastforce dest: rtranclp.rtrancl_into_rtrancl)
  show ?thesis
  proof (cases "cr_remote_addr req")
    case None
    then show ?thesis
      using st1 by (auto simp: generate_auth_challenge_def check_health_def client_ip_def Let_def)
  next
    case (Some ip)
    show ?thesis
      unfolding generate_auth_challenge_cases [OF Some]
      using st1 st2 push [of ip] st3(2) by (auto simp: Let_def split: result.split)
  qed
qed

lemma generate_auth_tokens_steps:
  assumes "env_steps sv env"
  shows "\<exists>st'. (auth_step sv)\<^sup>*\<^sup>* st st' \<and>
    as_queue st' = snd (generate_auth_tokens sv env req (as_queue st)) \<and>
    (case fst (generate_auth_tokens sv env req (as_queue st)) of
       Ok resp \<Rightarrow> response_tokens resp \<subseteq> as_tokens st' \<and> req \<in> as_redeemed st' | Err _ \<Rightarrow> True)"
proof (cases "generate_auth_tokens sv env req (as_queue st)")
  case (Pair r q')
  show ?thesis
  proof (cases r)
    case (Err e)
    then have "q' = as_queue st \<or> q' = env 0 (as_queue st)"
      using Pair by (auto simp: generate_auth_tokens_def Let_def split: result.splits option.splits prod.splits)
    then show ?thesis using Pair Err env_stepsE [OF assms, of st 0] by (metis fst_conv result.simps(6) rtranclp.rtrancl_refl snd_conv)
  next
    case (Ok resp)
    obtain st1 where st1: "(auth_step sv)\<^sup>*\<^sup>* st st1" "as_queue st1 = env 0 (as_queue st)"
      using env_stepsE [OF assms] by metis
    obtain ip c where c: "tr_remote_addr req = Some ip" "kq_get_priority (sv_queue sv) (as_queue st1) ip = Some c"
      "proves_possession (sv_lib sv) req (cl_client_pubkey (ac_access_claims c)) (ac_challenge c)"
      "issued_tokens sv c resp" "q' = kq_remove (sv_queue sv) ip (env 1 (as_queue st1))"
      using Pair Ok st1(2) by (auto simp: generate_auth_tokens_eq_Ok)
    obtain pk where pk: "tokens_keys (sv_lib sv) req = Ok (pk, cl_client_pubkey (ac_access_claims c))"
      using c(3) by (auto simp: proves_possession_def tokens_keys_eq_Ok)
    let ?st2 = "st1\<lparr>as_redeemed := insert req (as_redeemed st1), as_tokens := response_tokens resp \<union> as_tokens st1\<rparr>"
    have "redeem_challenge sv pk (cl_client_pubkey (ac_access_claims c)) c req = Ok resp"
      using c(3,4) by (simp add: redeem_challenge_eq_Ok [OF pk])
    then have st2: "(auth_step sv)\<^sup>*\<^sup>* st ?st2"
      using st1(1) auth_step.redeem [OF c(1) pk c(2)] by (blast intro: rtranclp.rtrancl_into_rtrancl)
    obtain st3 where st3: "(auth_step sv)\<^sup>*\<^sup>* ?st2 st3" "as_queue st3 = env 1 (as_queue ?st2)"
      using env_stepsE [OF assms] by metis
    let ?st4 = "st3\<lparr>as_queue := kq_remove (sv_queue sv) ip (as_queue st3)\<rparr>"
    have "(auth_step sv)\<^sup>*\<^sup>* st ?st4"
      using st2 st3(1) auth_step.remove [of sv st3 ip] by (meson rtranclp.rtrancl_into_rtrancl rtranclp_trans)
    moreover have "response_tokens resp \<subseteq> as_tokens ?st4 \<and> req \<in> as_redeemed ?st4"
      using auth_steps_mono [OF st3(1)] by auto
    ultimately show ?thesis using Pair Ok c(5) st3(2) by (intro exI [of _ ?st4]) simp
  qed
qed

lemma interceptor_call_backed:
  assumes "service_ok sv" and "auth_reach sv st" and "bearer_token (sv_lib sv) meta = Ok t"
    and "unforged sv (as_tokens st) t"
    and "interceptor_call (sv_lib sv) (sv_verifying_key sv) algo meta = Ok k"
  shows "\<exists>ip. backed sv st ip k"
proof -
  obtain d c where "al_verify_with_key (sv_lib sv) (sv_verifying_key sv) t = Some (algo, d)"
      "claims_from (sv_lib sv) d = Some c" "cl_client_pubkey c = k"
    using assms(3,5) by (auto simp: interceptor_call_eq_Ok)
  moreover have "auth_inv sv st" using auth.inv_reach [OF assms(2)] assms(1) by blast
  ultimately show ?thesis using assms(1,4) by (blast intro: unforged_backed backed_claims_from)
qed

lemma interceptor_call_signed:
  assumes "jwt_ok lib sk vk" and "pubkey_ok lib" and "time_ok lib" and "length (cl_client_pubkey c) = 32"
    and "al_sign_with_key lib sk algo (de_ser_claims_from lib c) = Some t" and "CHR '' '' \<notin> set t"
    and "meta ''authorization'' = Some v" and "al_to_str lib v = Some (BEARER @ t)"
  shows "interceptor_call lib vk algo meta = Ok (cl_client_pubkey c)"
proof -
  have "bearer_token lib meta = Ok t" using assms(6-8) by (intro bearer_token_bearer)
  moreover have "al_verify_with_key lib vk t = Some (algo, de_ser_claims_from lib c)"
    using assms(1,5) by (simp add: jwt_ok_def)
  ultimately show ?thesis
    using claims_from_de_ser [OF assms(2-4)] by (auto simp: interceptor_call_eq_Ok)
qed

section \<open>Properties\<close>

text \<open>
  C1: Whoever subscribes proved possession of the key: in every state of the authentication service that
  some interleaving of requests reaches, a request for packets that is admitted, with a token that was not
  forged, adds its channel under a key \<open>k\<close> for which the service had made a challenge and a client at the
  same address had returned a valid signature by \<open>k\<close> over \<open>k\<close> and the challenge.
\<close>

theorem subscriber_proved_possession:
  assumes "service_ok sv" and "auth_reach sv st" and "bearer_token (sv_lib sv) meta = Ok t"
    and "unforged sv (as_tokens st) t" and "hm_invar subs" and "hm_len subs \<le> 1"
    and "subscribe_authenticated (sv_lib sv) (sv_verifying_key sv) chan meta (subs, w) = (Ok s, subs', w')"
  shows "\<exists>ip k. backed sv st ip k \<and> hm_get subs' k = Some s"
proof -
  obtain k where k: "interceptor_call (sv_lib sv) (sv_verifying_key sv) Rs256 meta = Ok k"
    "subscribe_packets chan (Some k) (subs, w) = (Ok s, subs', w')"
    using assms(7) by (auto simp: subscribe_authenticated_def split: result.splits prod.splits)
  have "hm_get subs' k = Some s"
    using k(2) add_subscription_ok [of subs k s subs'] assms(5,6)
    by (auto simp: subscribe_packets_def subs_ok_def split: prod.splits result.splits)
  then show ?thesis using interceptor_call_backed [OF assms(1-4) k(1)] by blast
qed

text \<open>A run: a challenge is made for the example key and redeemed.\<close>

definition auth_example :: "((ip_addr \<times> nat auth_challenge) list, nat) auth_state" where
  "auth_example = \<lparr>as_queue = [(ip_example, new_example)], as_pushed = {(ip_example, new_example)},
     as_redeemed = {tokens_req_example}, as_tokens = response_tokens resp_example\<rparr>"

lemma service_ok_example: "service_ok service_example"
  using lib_example_ok kpq_ok_example by (simp add: service_ok_def service_example_def)

lemma auth_example_reach: "auth_reach service_example auth_example"
proof -
  let ?st1 = "(auth_init service_example)\<lparr>as_queue := kq_push (sv_queue service_example) ip_example new_example
      (as_queue (auth_init service_example)), as_pushed := insert (ip_example, new_example) (as_pushed (auth_init service_example))\<rparr>"
  have st1: "auth_reach service_example ?st1"
    by (rule reach_step [OF reach_init]) (rule refl, rule auth_step.push [OF new_challenge_example])
  have q: "as_queue ?st1 = [(ip_example, new_example)]"
    by (simp add: auth_init_def service_example_def kpq_example_def)
  have keys: "tokens_keys (sv_lib service_example) tokens_req_example = Ok (key_example, key_example)"
    by (simp add: tokens_keys_eq_Ok service_example_simps)
  have "redeem_challenge service_example key_example key_example new_example tokens_req_example = Ok resp_example"
    using proves_possession_example issued_tokens_example
    by (simp add: redeem_challenge_eq_Ok [OF keys]) (simp add: service_example_def new_example_def claims_example_def)
  then have "auth_step service_example ?st1 (?st1\<lparr>as_redeemed := insert tokens_req_example (as_redeemed ?st1),
      as_tokens := response_tokens resp_example \<union> as_tokens ?st1\<rparr>)"
    using q keys by (intro auth_step.redeem) (simp_all add: tokens_req_example_def service_example_def kpq_example_def)
  moreover have "?st1\<lparr>as_redeemed := insert tokens_req_example (as_redeemed ?st1),
      as_tokens := response_tokens resp_example \<union> as_tokens ?st1\<rparr> = auth_example"
    by (simp add: auth_example_def auth_init_def service_example_def kpq_example_def)
  ultimately show ?thesis using reach_step [OF st1] by simp
qed

definition meta_auth_example :: "string \<Rightarrow> bytes option" where
  "meta_auth_example n = (if n = ''authorization'' then Some (bytes_of (BEARER @ ''a'')) else None)"

lemma text_of_bytes_of [simp]: "text_of (bytes_of s) = s"
  by (auto simp: bytes_of_def text_of_def comp_def intro!: map_idI)

lemma bearer_token_example: "bearer_token lib_example meta_auth_example = Ok ''a''"
  by (rule bearer_token_bearer [where v = "bytes_of (BEARER @ ''a'')"])
     (simp_all add: meta_auth_example_def lib_example_def)

lemma unforged_example: "unforged service_example (as_tokens auth_example) ''a''"
  by (auto simp: unforged_def auth_example_def resp_example_def response_tokens_def pb_token_of_def)

lemma interceptor_call_example: "interceptor_call lib_example () Rs256 meta_auth_example = Ok key_example"
proof -
  have "de_ser_claims_from lib_example (claims_example t) = de_ser_example t" for t
    by (simp add: de_ser_claims_from_def claims_example_def de_ser_example_def lib_example_def)
  then show ?thesis
    using interceptor_call_signed [of lib_example "()" "()" "claims_example (from_secs 1800)" Rs256 "''a''" meta_auth_example
        "bytes_of (BEARER @ ''a'')"] sign_example(1) lib_example_ok
    by (simp add: claims_example_def key_example_def) (simp add: meta_auth_example_def lib_example_def)
qed

theorem subscriber_proved_possession_witness:
  "service_ok service_example \<and> auth_reach service_example auth_example \<and>
   (\<exists>ip k. backed service_example auth_example ip k \<and> hm_get [(key_example, 0 :: nat)] k = Some 0)"
proof -
  have run: "subscribe_authenticated (sv_lib service_example) (sv_verifying_key service_example) chan_example
      meta_auth_example ([], (0, 0)) = (Ok 0, [(key_example, 0)], (1, 0))"
    using interceptor_call_example
    by (simp add: subscribe_authenticated_def service_example_def subscribe_packets_def chan_example_def
        add_subscription_def hm_len_def hm_get_def hm_insert_def)
  have bt: "bearer_token (sv_lib service_example) meta_auth_example = Ok ''a''"
    using bearer_token_example by (simp add: service_example_def)
  show ?thesis
    using service_ok_example auth_example_reach
      subscriber_proved_possession [OF service_ok_example auth_example_reach bt unforged_example _ _ run]
    by (simp add: hm_invar_def hm_len_def)
qed


text \<open>The example service with a token for every expiry, its number in unary.\<close>

definition service_unary :: "(nat, unit, unit, bytes, bytes, (ip_addr \<times> nat auth_challenge) list) auth_service" where
  "service_unary = service_example\<lparr>sv_lib := lib_example\<lparr>
     al_sign_with_key := (\<lambda>_ h c. if h = Rs256 \<and> c = de_ser_example (nat (ds_expires_at_unix_ts c))
       then Some (replicate (nat (ds_expires_at_unix_ts c)) CHR ''x'') else None),
     al_verify_with_key := (\<lambda>_ t. Some (Rs256, de_ser_example (length t)))\<rparr>\<rparr>"

lemma service_unary_ok: "service_ok service_unary" "time_ok (sv_lib service_unary)"
  using lib_example_ok kpq_ok_example
  by (auto simp: service_ok_def service_unary_def service_example_def jwt_ok_def pubkey_ok_def time_ok_def
      split: if_splits)


text \<open>
  C11: The handlers do what the steps do: under any interference that is itself a run of steps,
  \<open>generate_auth_challenge\<close> and \<open>generate_auth_tokens\<close> leave the queue in a state that a run of steps
  reaches, with the request and the tokens of a successful call on record.
\<close>

theorem auth_handlers_refine_steps:
  assumes "env_steps sv env"
  shows "(\<exists>st'. (auth_step sv)\<^sup>*\<^sup>* st st' \<and>
      as_queue st' = snd (generate_auth_challenge sv env rng clk creq (as_queue st))) \<and>
    (\<exists>st'. (auth_step sv)\<^sup>*\<^sup>* st st' \<and>
      as_queue st' = snd (generate_auth_tokens sv env treq (as_queue st)) \<and>
      (case fst (generate_auth_tokens sv env treq (as_queue st)) of
         Ok resp \<Rightarrow> response_tokens resp \<subseteq> as_tokens st' \<and> treq \<in> as_redeemed st' | Err _ \<Rightarrow> True))"
  using generate_auth_challenge_steps [OF assms] generate_auth_tokens_steps [OF assms] by blast

theorem auth_handlers_refine_steps_witness:
  "env_steps service_example (\<lambda>_. kq_remove (sv_queue service_example) (V4 10 0 0 2)) \<and>
   (\<exists>st'. (auth_step service_example)\<^sup>*\<^sup>* auth_example st' \<and>
      as_queue st' = snd (generate_auth_tokens service_example
        (\<lambda>_. kq_remove (sv_queue service_example) (V4 10 0 0 2)) tokens_req_example (as_queue auth_example)))"
proof -
  have "env_steps service_example (\<lambda>_. kq_remove (sv_queue service_example) (V4 10 0 0 2))"
    unfolding env_steps_def
  proof (intro allI exI conjI)
    show "(auth_step service_example)\<^sup>*\<^sup>* st (st\<lparr>as_queue := kq_remove (sv_queue service_example) (V4 10 0 0 2) (as_queue st)\<rparr>)"
      for st using auth_step.remove by (rule r_into_rtranclp)
  qed simp
  then show ?thesis using auth_handlers_refine_steps by blast
qed

text \<open>
  C28: The interceptor admits expired tokens: a token signed for some claims is admitted whatever their
  expiry, also when it has passed at the time of the request.
\<close>

theorem expired_token_admitted:
  assumes "jwt_ok lib sk vk" and "pubkey_ok lib" and "time_ok lib" and "length (cl_client_pubkey c) = 32"
    and "claims_expired now c"
    and "al_sign_with_key lib sk Rs256 (de_ser_claims_from lib c) = Some t" and "CHR '' '' \<notin> set t"
    and "meta ''authorization'' = Some v" and "al_to_str lib v = Some (BEARER @ t)"
  shows "interceptor_call lib vk Rs256 meta = Ok (cl_client_pubkey c)"
  using assms(1-4,6-9) by (rule interceptor_call_signed)

theorem expired_token_admitted_witness:
  "claims_expired (from_secs 4000) (claims_example (from_secs 1800)) \<and>
   interceptor_call lib_example () Rs256 meta_auth_example = Ok key_example"
proof -
  have exp: "claims_expired (from_secs 4000) (claims_example (from_secs 1800))"
    by (simp add: claims_expired_def claims_example_def from_secs_def)
  have "de_ser_claims_from lib_example (claims_example t) = de_ser_example t" for t
    by (simp add: de_ser_claims_from_def claims_example_def de_ser_example_def lib_example_def)
  then show ?thesis
    using exp expired_token_admitted [of lib_example "()" "()", OF lib_example_ok _ exp, of "''a''" meta_auth_example
        "bytes_of (BEARER @ ''a'')"] sign_example(1)
    by (simp add: claims_example_def key_example_def) (simp add: meta_auth_example_def lib_example_def)
qed

section \<open>Renewal\<close>

text \<open>
  A client that renews its token again and again, each time presenting the token it got last; \<open>clk\<close> is the clock
  of one request. \<open>in_time\<close>: each request is made before the token it presents expires, with its expiry cut to
  whole seconds as it is in the token.
\<close>

fun renew :: "('t :: linorder, 'sk, 'vk, 'pk, 'sg, 'q) auth_service \<Rightarrow> (nat \<Rightarrow> 't) list \<Rightarrow> string \<Rightarrow> string option" where
  "renew sv [] t = Some t"
| "renew sv (clk # clks) t =
     (case refresh_access_token sv clk t of Ok (Some tok) \<Rightarrow> renew sv clks (tk_value tok) | _ \<Rightarrow> None)"

fun in_time :: "('t :: linorder, 'sk, 'vk, 'pk, 'sg) auth_lib \<Rightarrow> 't \<Rightarrow> (nat \<Rightarrow> 't) list \<Rightarrow> bool" where
  "in_time lib e [] = True"
| "in_time lib e (clk # clks) =
     ((\<forall>t. al_from_timestamp lib (al_timestamp lib e) = Some t \<longrightarrow> clk 0 < t) \<and>
      in_time lib (al_add lib (clk 1) ACCESS_TOKEN_TTL) clks)"

lemma claims_from_de_ser_at:
  assumes "pubkey_ok lib" and "time_ok lib" and "length (cl_client_pubkey c) = 32"
  shows "\<exists>t. al_from_timestamp lib (al_timestamp lib (cl_expires_at_utc c)) = Some t \<and>
    claims_from lib (de_ser_claims_from lib c) = Some (c\<lparr>cl_expires_at_utc := t\<rparr>)"
  using assms by (fastforce simp: claims_from_def de_ser_claims_from_def ip_from_str_to_string pubkey_ok_def time_ok_def)

text \<open>
  C29: an access token can be renewed without end. \<open>refresh_access_token\<close> takes every token that the service signed,
  so it takes an access token too. A client that presents its last access token before it expires gets the
  next one, any number of times, and so holds a token that is not expired for as long as it likes after one
  challenge, past the expiry of the refresh token that came with it.
\<close>

theorem access_token_renews:
  assumes "service_ok sv" and "time_ok (sv_lib sv)" and "length (cl_client_pubkey c) = 32"
    and "\<And>e. al_sign_with_key (sv_lib sv) (sv_signing_key sv) Rs256
      (de_ser_claims_from (sv_lib sv) (c\<lparr>cl_expires_at_utc := e\<rparr>)) = Some (token e)"
    and "in_time (sv_lib sv) e clks"
  shows "renew sv clks (token e) =
    Some (token (if clks = [] then e else al_add (sv_lib sv) (last clks 1) (from_secs 1800)))"
  using assms(5)
proof (induction clks arbitrary: e)
  case (Cons clk clks)
  let ?lib = "sv_lib sv" and ?e = "al_add (sv_lib sv) (clk 1) ACCESS_TOKEN_TTL"
  have ok: "jwt_ok ?lib (sv_signing_key sv) (sv_verifying_key sv)" "pubkey_ok ?lib"
    using assms(1) by (simp_all add: service_ok_def)
  obtain t where t: "al_from_timestamp ?lib (al_timestamp ?lib e) = Some t"
    "claims_from ?lib (de_ser_claims_from ?lib (c\<lparr>cl_expires_at_utc := e\<rparr>)) = Some (c\<lparr>cl_expires_at_utc := t\<rparr>)"
    using claims_from_de_ser_at [OF ok(2) assms(2), of "c\<lparr>cl_expires_at_utc := e\<rparr>"] assms(3) by auto
  have "\<not> claims_expired (clk 0) (c\<lparr>cl_expires_at_utc := t\<rparr>)"
    using Cons.prems t(1) by (simp add: claims_expired_def not_le)
  moreover have "al_verify_with_key ?lib (sv_verifying_key sv) (token e) =
      Some (Rs256, de_ser_claims_from ?lib (c\<lparr>cl_expires_at_utc := e\<rparr>))"
    using ok(1) assms(4) by (simp add: jwt_ok_def)
  ultimately have "refresh_access_token sv clk (token e) = Ok (pb_token_of sv (token ?e) ?e)"
    using t(2) assms(4) [of ?e] by (simp add: refresh_access_token_eq_Ok)
  then show ?case
    using Cons.IH [of ?e] Cons.prems by (simp add: pb_token_of_def ACCESS_TOKEN_TTL_def)
qed simp

theorem access_token_renews_witness:
  "renew service_unary [\<lambda>_. from_secs 1000, \<lambda>_. from_secs 2000, \<lambda>_. from_secs 3000] (replicate (from_secs 1800) CHR ''x'') =
     Some (replicate (from_secs 4800) CHR ''x'')"
proof -
  let ?clks = "[\<lambda>_. from_secs 1000, \<lambda>_. from_secs 2000, \<lambda>_. from_secs 3000] :: (nat \<Rightarrow> nat) list"
  have "length (cl_client_pubkey (claims_example 0)) = 32" by (simp add: claims_example_def key_example_def)
  moreover have "al_sign_with_key (sv_lib service_unary) (sv_signing_key service_unary) Rs256
      (de_ser_claims_from (sv_lib service_unary) ((claims_example 0)\<lparr>cl_expires_at_utc := e\<rparr>)) =
      Some (replicate e CHR ''x'')" for e
    by (simp add: service_unary_def de_ser_claims_from_def claims_example_def de_ser_example_def lib_example_def)
  moreover have "in_time (sv_lib service_unary) (from_secs 1800) ?clks"
    by (simp add: service_unary_def lib_example_def ACCESS_TOKEN_TTL_def from_secs_def)
  moreover have "al_add (sv_lib service_unary) (last ?clks 1) (from_secs 1800) = from_secs 4800"
    by (simp add: service_unary_def lib_example_def from_secs_def)
  ultimately show ?thesis
    using access_token_renews [OF service_unary_ok, of "claims_example 0" "\<lambda>e. replicate e CHR ''x''" "from_secs 1800" ?clks]
    by (simp del: renew.simps in_time.simps)
qed

end
