(* ===== verification/Block_Engine.thy ===== *)
theory Block_Engine
  imports Hash_Map Packets
begin

text \<open>
  The block engine service of \<open>src/blockengine\<close>: the pools of upstream clients, the requests passed on to
  the block engine, the rewritten endpoints, and the streams served to a validator, with the task that
  pumps the upstream into the proxy.

  Connecting and calling the block engine belongs to tonic: \<open>upstream\<close> and the call arguments of the
  handlers are functions on a world of an unspecified type \<open>'w\<close>.
\<close>

datatype code = CodeInternal | CodeUnavailable | CodePermissionDenied | CodeOther nat

record grpc_status =
  gs_code :: code
  gs_message :: string

record ('e, 'ch, 'w) upstream =
  up_from_shared :: "string \<Rightarrow> ('e, string) result"
  up_tls_config :: "'e \<Rightarrow> ('e, string) result"
  up_connect :: "duration \<Rightarrow> 'e \<Rightarrow> 'w \<Rightarrow> ('ch, string) result \<times> 'w"

definition BLOCKENGINE_CHANNEL_LIMIT :: nat where "BLOCKENGINE_CHANNEL_LIMIT = 50000"

definition local_blockengine_url :: "ip_addr \<Rightarrow> u16 \<Rightarrow> string" where
  "local_blockengine_url relayer_bind_ip blockengine_bind_port =
     ''http://'' @ ip_to_string relayer_bind_ip @ '':'' @ show_dec (unat blockengine_bind_port)"

section \<open>Clients\<close>

definition get_client :: "('e, 'ch, 'w) upstream \<Rightarrow> string \<Rightarrow> 'w \<Rightarrow> ('ch, grpc_status) result \<times> 'w" where
  "get_client up url w =
     (case up_from_shared up url of
        Err e \<Rightarrow> (Err \<lparr>gs_code = CodeInternal, gs_message = e\<rparr>, w)
      | Ok endpoint \<Rightarrow>
          (case up_tls_config up endpoint of
             Err e \<Rightarrow> (Err \<lparr>gs_code = CodeInternal, gs_message = e\<rparr>, w)
           | Ok endpoint' \<Rightarrow>
               (case up_connect up (from_secs 10) endpoint' w of
                  (Err e, w') \<Rightarrow> (Err \<lparr>gs_code = CodeUnavailable, gs_message = e\<rparr>, w')
                | (Ok channel, w') \<Rightarrow> (Ok channel, w'))))"

type_synonym 'c pool = "(socket_addr, 'c) hmap"

text \<open>\<open>env\<close> is what other requests do to the pool while this one connects.\<close>

definition get_pooled_client :: "('e, 'ch, 'w) upstream \<Rightarrow> string \<Rightarrow> socket_addr option \<Rightarrow> ('ch \<Rightarrow> 'c) \<Rightarrow>
    ('c pool \<Rightarrow> 'c pool) \<Rightarrow> 'c pool \<times> 'w \<Rightarrow> ('c, grpc_status) result \<times> 'c pool \<times> 'w" where
  "get_pooled_client up url peer mk env pw =
     (case pw of (pool, w) \<Rightarrow>
       (case Option.bind peer (hm_get pool) of
          Some existing \<Rightarrow> (Ok existing, pool, w)
        | None \<Rightarrow>
            (case get_client up url w of
               (Err e, w') \<Rightarrow> (Err e, env pool, w')
             | (Ok channel, w') \<Rightarrow>
                 (let client = mk channel
                  in (Ok client,
                      (case peer of Some addr \<Rightarrow> hm_insert addr client (env pool) | None \<Rightarrow> env pool),
                      w')))))"

section \<open>Requests\<close>

type_synonym ('c, 's, 'w) getter = "'s \<times> 'w \<Rightarrow> ('c, grpc_status) result \<times> 's \<times> 'w"
type_synonym ('c, 'req, 'resp, 'w) call = "'c \<Rightarrow> 'req \<Rightarrow> 'w \<Rightarrow> ('resp, grpc_status) result \<times> 'w"

text \<open>
  A request to the block engine through the pooled client of its peer, which \<open>get\<close> looks up or makes: the body
  of \<open>get_block_builder_fee_info\<close> and of the three methods of the authentication service. \<open>'s\<close> is the state that
  holds the pool.
\<close>

definition pass_through :: "('c, 's, 'w) getter \<Rightarrow> ('c, 'req, 'resp, 'w) call \<Rightarrow> 'req \<Rightarrow> 's \<times> 'w \<Rightarrow>
    ('resp, grpc_status) result \<times> 's \<times> 'w" where
  "pass_through get call req sw =
     (case get sw of
        (Err e, sw') \<Rightarrow> (Err e, sw')
      | (Ok client, s, w) \<Rightarrow> (case call client req w of (r, w') \<Rightarrow> (r, s, w')))"

record block_engine_endpoint =
  ep_block_engine_url :: string
  ep_shredstream_receiver_address :: string

record endpoints_response =
  er_global_endpoint :: "block_engine_endpoint option"
  er_regioned_endpoints :: "block_engine_endpoint list"

definition rewrite_endpoint :: "string \<Rightarrow> block_engine_endpoint \<Rightarrow> block_engine_endpoint" where
  "rewrite_endpoint local_url ep =
     \<lparr>ep_block_engine_url = local_url,
      ep_shredstream_receiver_address = ep_shredstream_receiver_address ep\<rparr>"

definition rewrite_endpoints :: "string \<Rightarrow> endpoints_response \<Rightarrow> endpoints_response" where
  "rewrite_endpoints local_url jito_res =
     \<lparr>er_global_endpoint = map_option (rewrite_endpoint local_url) (er_global_endpoint jito_res),
      er_regioned_endpoints = map (rewrite_endpoint local_url) (er_regioned_endpoints jito_res)\<rparr>"

definition get_block_engine_endpoints :: "string \<Rightarrow> ('c, 's, 'w) getter \<Rightarrow> ('c, 'req, endpoints_response, 'w) call \<Rightarrow>
    'req \<Rightarrow> 's \<times> 'w \<Rightarrow> (endpoints_response, grpc_status) result \<times> 's \<times> 'w" where
  "get_block_engine_endpoints local_url get call req sw =
     (case pass_through get call req sw of
        (Err e, sw') \<Rightarrow> (Err e, sw')
      | (Ok jito_res, sw') \<Rightarrow> (Ok (rewrite_endpoints local_url jito_res), sw'))"

text \<open>
  The request to the block engine in \<open>subscribe_packets\<close> and \<open>subscribe_bundles\<close>: the upstream to pump, None when
  the block engine denies it.
\<close>

definition subscribe_upstream :: "('c, 's, 'w) getter \<Rightarrow> ('c, 'req, 'u, 'w) call \<Rightarrow> 'req \<Rightarrow> 's \<times> 'w \<Rightarrow>
    ('u option, grpc_status) result \<times> 's \<times> 'w" where
  "subscribe_upstream get call req sw =
     (case get sw of
        (Err e, sw') \<Rightarrow> (Err e, sw')
      | (Ok client, s, w) \<Rightarrow>
          (case call client req w of
             (Ok resp, w') \<Rightarrow> (Ok (Some resp), s, w')
           | (Err e, w') \<Rightarrow>
               if gs_code e \<noteq> CodePermissionDenied then (Err e, s, w') else (Ok None, s, w')))"

section \<open>Streams\<close>

text \<open>
  One round of \<open>pump_upstream\<close> per entry: whether the token is cancelled when the select polls it, which
  it does first, and the next message. The result is what goes to the block engine channel.
\<close>

fun pump_upstream :: "(bool \<times> ('a option, grpc_status) result) list \<Rightarrow> 'a list" where
  "pump_upstream [] = []"
| "pump_upstream ((cancelled, message) # rounds) =
     (if cancelled then []
      else case message of
             Ok (Some item) \<Rightarrow> item # pump_upstream rounds
           | Ok None \<Rightarrow> []
           | Err status \<Rightarrow> [])"

datatype 'a poll = Pending | Ready 'a

text \<open>
  The receiver of the broadcast channel holds items and reports of lag; \<open>filter_map\<close> drops the reports.
\<close>

datatype 'a recv = Item 'a | Lagged u64

fun filter_poll :: "'a recv list \<Rightarrow> 'a option poll \<times> 'a recv list" where
  "filter_poll [] = (Pending, [])"
| "filter_poll (Lagged n # rs) = filter_poll rs"
| "filter_poll (Item x # rs) = (Ready (Some x), rs)"

text \<open>\<open>ExitAwareStream::poll_next\<close>.\<close>

definition poll_next :: "bool \<Rightarrow> 'a recv list \<Rightarrow> 'a option poll \<times> 'a recv list" where
  "poll_next cancelled inner = (if cancelled then (Ready None, inner) else filter_poll inner)"

text \<open>
  A validator reading the stream: before each poll some entries arrive in the channel, and the token may
  have been cancelled. The stream is over once a poll returns \<open>Ready None\<close>.
\<close>

fun drain_stream :: "('a recv list \<times> bool) list \<Rightarrow> 'a recv list \<Rightarrow> 'a list \<times> bool" where
  "drain_stream [] buf = ([], False)"
| "drain_stream ((arrived, cancelled) # polls) buf =
     (case poll_next cancelled (buf @ arrived) of
        (Ready None, _) \<Rightarrow> ([], True)
      | (Ready (Some x), buf') \<Rightarrow> (case drain_stream polls buf' of (xs, ended) \<Rightarrow> (x # xs, ended))
      | (Pending, buf') \<Rightarrow> drain_stream polls buf')"

text \<open>
  The tasks of \<open>serve_proxy_stream\<close>: the pump, when there is an upstream, and the bridge from the exit flag
  to the token. The guard in the stream cancels the token when the validator drops the stream.
\<close>

record serve_state =
  ss_exit :: bool
  ss_dropped :: bool
  ss_token :: bool
  ss_bridge :: bool
  ss_pump :: bool

definition serve_start :: "bool \<Rightarrow> serve_state" where
  "serve_start has_upstream =
     \<lparr>ss_exit = False, ss_dropped = False, ss_token = False, ss_bridge = True, ss_pump = has_upstream\<rparr>"

inductive serve_step :: "serve_state \<Rightarrow> serve_state \<Rightarrow> bool" where
  bridge_exit: "ss_bridge s \<Longrightarrow> ss_exit s \<Longrightarrow> serve_step s (s\<lparr>ss_token := True, ss_bridge := False\<rparr>)"
| bridge_cancelled: "ss_bridge s \<Longrightarrow> ss_token s \<Longrightarrow> serve_step s (s\<lparr>ss_bridge := False\<rparr>)"
| pump_cancelled: "ss_pump s \<Longrightarrow> ss_token s \<Longrightarrow> serve_step s (s\<lparr>ss_pump := False\<rparr>)"

text \<open>What happens around the tasks: shutdown, the validator leaves, the upstream ends.\<close>

inductive serve_env :: "serve_state \<Rightarrow> serve_state \<Rightarrow> bool" where
  exit_raised: "serve_env s (s\<lparr>ss_exit := True\<rparr>)"
| stream_dropped: "serve_env s (s\<lparr>ss_dropped := True, ss_token := True\<rparr>)"
| upstream_ended: "serve_env s (s\<lparr>ss_pump := False\<rparr>)"

inductive_simps serve_step_simps: "serve_step s s'"

section \<open>Lemmas\<close>

lemma get_pooled_client_hit:
  "Option.bind peer (hm_get pool) = Some c \<Longrightarrow> get_pooled_client up url peer mk env (pool, w) = (Ok c, pool, w)"
  by (simp add: get_pooled_client_def)

lemma get_pooled_client_miss:
  "Option.bind peer (hm_get pool) = None \<Longrightarrow> get_client up url w = (Ok channel, w') \<Longrightarrow>
     get_pooled_client up url peer mk env (pool, w) = (Ok (mk channel),
       (case peer of Some addr \<Rightarrow> hm_insert addr (mk channel) (env pool) | None \<Rightarrow> env pool), w')"
  by (simp add: get_pooled_client_def Let_def)

fun recv_items :: "'a recv list \<Rightarrow> 'a list" where
  "recv_items [] = []"
| "recv_items (Item x # rs) = x # recv_items rs"
| "recv_items (Lagged n # rs) = recv_items rs"

lemma recv_items_append [simp]: "recv_items (xs @ ys) = recv_items xs @ recv_items ys"
  by (induction xs rule: recv_items.induct) simp_all

lemma filter_poll_items:
  "(case filter_poll rs of (Ready (Some x), rs') \<Rightarrow> recv_items rs = x # recv_items rs'
    | (Pending, rs') \<Rightarrow> recv_items rs = [] \<and> rs' = [] | (Ready None, _) \<Rightarrow> False)"
  by (induction rs rule: filter_poll.induct) (auto split: prod.splits poll.splits option.splits)

lemma filter_poll_cases:
  obtains x rs' where "filter_poll rs = (Ready (Some x), rs')" and "recv_items rs = x # recv_items rs'"
  | "filter_poll rs = (Pending, [])" and "recv_items rs = []"
  using filter_poll_items [of rs] by (auto split: prod.splits poll.splits option.splits)

lemma drain_stream_prefix_items:
  "\<exists>rest. recv_items (buf @ concat (map fst polls)) = fst (drain_stream polls buf) @ rest"
proof (induction polls arbitrary: buf)
  case (Cons p polls)
  obtain arrived cancelled where p: "p = (arrived, cancelled)" by (cases p)
  show ?case
  proof (cases cancelled)
    case True
    then show ?thesis by (simp add: p poll_next_def)
  next
    case False
    show ?thesis
    proof (cases "buf @ arrived" rule: filter_poll_cases)
      case (1 x rs')
      have drain: "fst (drain_stream (p # polls) buf) = x # fst (drain_stream polls rs')"
        using 1(1) False by (simp add: p poll_next_def case_prod_beta)
      have "recv_items (buf @ concat (map fst (p # polls))) =
          recv_items (buf @ arrived) @ recv_items (concat (map fst polls))" by (simp add: p)
      also have "\<dots> = x # recv_items (rs' @ concat (map fst polls))" using 1(2) by simp
      finally show ?thesis using Cons.IH [of rs'] by (simp only: drain) simp
    next
      case 2
      then have "recv_items buf = []" "recv_items arrived = []" by simp_all
      then show ?thesis using Cons.IH [of "[]"] 2(1) False by (simp add: p poll_next_def)
    qed
  qed
qed simp

lemma drain_stream_ended: "snd (drain_stream polls buf) \<longleftrightarrow> list_ex snd polls"
proof (induction polls arbitrary: buf)
  case (Cons p polls)
  obtain arrived cancelled where p: "p = (arrived, cancelled)" by (cases p)
  show ?case
  proof (cases cancelled)
    case False
    then show ?thesis
      using Cons.IH by (cases "buf @ arrived" rule: filter_poll_cases) (auto simp: p poll_next_def case_prod_beta)
  qed (simp add: p poll_next_def)
qed simp

lemma drain_stream_complete:
  "length (recv_items buf) \<le> n \<Longrightarrow> fst (drain_stream (replicate n ([], False)) buf) = recv_items buf"
proof (induction n arbitrary: buf)
  case (Suc n)
  show ?case
  proof (cases buf rule: filter_poll_cases)
    case (1 x rs')
    then show ?thesis using Suc.IH [of rs'] Suc.prems by (simp add: poll_next_def case_prod_beta)
  next
    case 2
    then show ?thesis using Suc.IH [of "[]"] by (simp add: poll_next_def)
  qed
qed simp

lemma pump_upstream_takeWhile:
  "map Some (pump_upstream rounds) =
     map (\<lambda>(_, m). case m of Ok x \<Rightarrow> x | Err _ \<Rightarrow> None)
       (takeWhile (\<lambda>(cancelled, m). \<not> cancelled \<and> (\<exists>x. m = Ok (Some x))) rounds)"
  by (induction rounds rule: pump_upstream.induct) (auto split: result.splits option.splits)

definition serve_measure :: "serve_state \<Rightarrow> nat" where
  "serve_measure s = (if ss_bridge s then 1 else 0) + (if ss_pump s then 1 else 0)"

text \<open>The invariant of the tasks: a dropped stream has cancelled the token, and only the bridge ends at exit.\<close>

definition serve_inv :: "serve_state \<Rightarrow> bool" where
  "serve_inv s \<longleftrightarrow> (ss_dropped s \<longrightarrow> ss_token s) \<and> (\<not> ss_bridge s \<longrightarrow> ss_token s)"

interpretation serve: inductive_invariant "\<lambda>s. \<exists>u. s = serve_start u" "\<lambda>s s'. serve_step s s' \<or> serve_env s s'" serve_inv
  by unfold_locales
     (auto simp: serve_inv_def serve_start_def serve_step_simps elim!: serve_env.cases)

interpretation serve: progress serve_step "\<lambda>s. serve_inv s \<and> (ss_exit s \<or> ss_dropped s)"
  "\<lambda>s. \<not> ss_bridge s \<and> \<not> ss_pump s" serve_measure
  by unfold_locales (auto simp: serve_inv_def serve_step_simps serve_measure_def)

text \<open>The requests of a run, one after the other, each with the peer it came from.\<close>

fun pool_run :: "('e, 'ch, 'w) upstream \<Rightarrow> string \<Rightarrow> ('ch \<Rightarrow> 'c) \<Rightarrow> socket_addr option list \<Rightarrow> 'c pool \<times> 'w \<Rightarrow> 'c pool \<times> 'w" where
  "pool_run up url mk [] pw = pw"
| "pool_run up url mk (peer # peers) pw =
     pool_run up url mk peers (snd (get_pooled_client up url peer mk (\<lambda>pool. pool) pw))"

lemma get_pooled_client_invar:
  "hm_invar pool \<Longrightarrow> hm_invar (fst (snd (get_pooled_client up url peer mk (\<lambda>pool. pool) (pool, w))))"
  by (auto simp: get_pooled_client_def Let_def split: option.split result.split prod.split)

lemma get_pooled_client_dom:
  assumes "\<And>w. \<exists>ch w'. get_client up url w = (Ok ch, w')" and "hm_invar pool"
  shows "dom (hm_get (fst (snd (get_pooled_client up url peer mk (\<lambda>pool. pool) (pool, w))))) =
    dom (hm_get pool) \<union> set_option peer"
proof (cases "Option.bind peer (hm_get pool)")
  case None
  obtain ch w' where ch: "get_client up url w = (Ok ch, w')" using assms(1) by blast
  show ?thesis
    using get_pooled_client_miss [OF None ch, of mk "\<lambda>pool. pool"] assms(2)
    by (cases peer) (auto simp: hm.get_insert split: if_splits)
next
  case (Some c)
  then show ?thesis by (cases peer) (auto simp: get_pooled_client_hit)
qed

lemma pool_run_dom:
  assumes "\<And>w. \<exists>ch w'. get_client up url w = (Ok ch, w')" and "hm_invar pool"
  shows "hm_invar (fst (pool_run up url mk peers (pool, w))) \<and>
    dom (hm_get (fst (pool_run up url mk peers (pool, w)))) = dom (hm_get pool) \<union> (\<Union>p \<in> set peers. set_option p)"
  using assms(2)
proof (induction peers arbitrary: pool w)
  case (Cons peer peers)
  let ?r = "get_pooled_client up url peer mk (\<lambda>pool. pool) (pool, w)"
  have "hm_invar (fst (snd ?r))" using Cons.prems by (rule get_pooled_client_invar)
  then show ?case
    using Cons.IH [of "fst (snd ?r)" "snd (snd ?r)"] get_pooled_client_dom [OF assms(1) Cons.prems, of peer mk w]
    by auto
qed simp

section \<open>Properties\<close>

text \<open>
  A client made for a peer is kept: after a successful request the same peer gets the same client
  without another connection, and a request of a peer without a client that cannot connect fails with
  the status of the connection and changes nothing.
\<close>

theorem get_pooled_client_reused:
  assumes "hm_invar pool" and "get_pooled_client up url (Some addr) mk (\<lambda>pool. pool) (pool, w) = (r, pool', w')"
  shows "(case r of
      Ok c \<Rightarrow> hm_get pool' addr = Some c \<and>
        get_pooled_client up url (Some addr) mk' env (pool', w'') = (Ok c, pool', w'')
    | Err e \<Rightarrow> hm_get pool addr = None \<and> pool' = pool \<and> get_client up url w = (Err e, w'))"
  using assms
  by (auto simp: get_pooled_client_def Let_def hm.get_insert split: option.splits result.splits prod.splits)

definition upstream_example :: "(string, nat, nat) upstream" where
  "upstream_example = \<lparr>up_from_shared = Ok, up_tls_config = Ok, up_connect = (\<lambda>_ _ n. (Ok n, Suc n))\<rparr>"

lemma get_client_example: "get_client upstream_example url n = (Ok n, Suc n)"
  by (simp add: get_client_def upstream_example_def)

theorem get_pooled_client_reused_witness:
  "get_pooled_client upstream_example [] (Some (V4 1 2 3 4, 5)) id id (hm_empty, 7) =
     (Ok 7, hm_insert (V4 1 2 3 4, 5) 7 hm_empty, 8) \<and>
   get_pooled_client upstream_example [] (Some (V4 1 2 3 4, 5)) id id (hm_insert (V4 1 2 3 4, 5) 7 hm_empty, 8) =
     (Ok 7, hm_insert (V4 1 2 3 4, 5) 7 hm_empty, 8)"
proof -
  have run: "get_pooled_client upstream_example [] (Some (V4 1 2 3 4, 5)) id (\<lambda>pool. pool) (hm_empty, 7) =
     (Ok 7, hm_insert (V4 1 2 3 4, 5) 7 hm_empty, 8)"
    by (simp add: get_pooled_client_def hm.get_empty get_client_example)
  show ?thesis
    using run get_pooled_client_reused [OF hm.invar_empty run, of id id 8] by (simp add: id_def)
qed

text \<open>
  The pools only grow: when the block engine can be reached, after any sequence of requests the pool
  holds a client for every address that ever sent one, each new port of a reconnecting validator
  included, so its size is the number of distinct addresses seen.
\<close>

theorem pool_keeps_every_peer:
  assumes "\<And>w. \<exists>ch w'. get_client up url w = (Ok ch, w')"
  shows "hm_len (fst (pool_run up url mk peers (hm_empty, w))) = card (\<Union>p \<in> set peers. set_option p)"
  using pool_run_dom [OF assms hm.invar_empty, of mk peers w] by (simp add: hm.len_card hm.get_empty)

theorem pool_keeps_every_peer_witness:
  "hm_len (fst (pool_run upstream_example [] id
     [Some (V4 1 2 3 4, 5), Some (V4 1 2 3 4, 6), None, Some (V4 1 2 3 4, 5)] (hm_empty, 0))) = 2"
  using pool_keeps_every_peer [of upstream_example "[]" id
      "[Some (V4 1 2 3 4, 5), Some (V4 1 2 3 4, 6), None, Some (V4 1 2 3 4, 5)]" 0]
  by (simp add: get_client_example del: pool_run.simps) (simp add: card_insert_if del: pool_run.simps)

text \<open>
  A subscription fails exactly when the block engine cannot be reached or refuses it with a code other
  than permission denied, and with that status; when permission is denied the validator is served from
  the proxy alone.
\<close>

theorem subscribe_upstream_cases:
  assumes "get sw = (r, s, w)"
  shows "subscribe_upstream get call req sw =
    (case r of
       Err e \<Rightarrow> (Err e, s, w)
     | Ok client \<Rightarrow>
         (let (r', w') = call client req w
          in ((case r' of Ok u \<Rightarrow> Ok (Some u)
               | Err e \<Rightarrow> if gs_code e = CodePermissionDenied then Ok None else Err e), s, w')))"
  using assms by (auto simp: subscribe_upstream_def Let_def split: result.splits prod.splits)

theorem subscribe_upstream_cases_witness:
  "fst (subscribe_upstream (get_pooled_client upstream_example [] None id id)
     (\<lambda>c req w. (Err \<lparr>gs_code = CodePermissionDenied, gs_message = []\<rparr> :: (unit, grpc_status) result, w))
     () (hm_empty, 7)) = Ok None"
proof -
  have "get_pooled_client upstream_example [] None id id (hm_empty, 7) = (Ok 7, hm_empty, 8)"
    by (simp add: get_pooled_client_def get_client_example)
  from subscribe_upstream_cases [of "get_pooled_client upstream_example [] None id id", OF this, where req = "()" and
      call = "\<lambda>c req w. (Err \<lparr>gs_code = CodePermissionDenied, gs_message = []\<rparr> :: (unit, grpc_status) result, w)"]
  show ?thesis by simp
qed

text \<open>
  The endpoints a validator is told all carry the local URL; which endpoints there are, their order and
  their shredstream addresses are those of the block engine, and an error of the block engine is passed
  on.
\<close>

theorem get_block_engine_endpoints_local:
  "case pass_through get call req sw of
     (Err e, sw') \<Rightarrow> get_block_engine_endpoints local_url get call req sw = (Err e, sw')
   | (Ok jito, sw') \<Rightarrow>
       (\<exists>res. get_block_engine_endpoints local_url get call req sw = (Ok res, sw') \<and>
          list_all (\<lambda>ep. ep_block_engine_url ep = local_url) (er_regioned_endpoints res) \<and>
          pred_option (\<lambda>ep. ep_block_engine_url ep = local_url) (er_global_endpoint res) \<and>
          map ep_shredstream_receiver_address (er_regioned_endpoints res) =
            map ep_shredstream_receiver_address (er_regioned_endpoints jito) \<and>
          map_option ep_shredstream_receiver_address (er_global_endpoint res) =
            map_option ep_shredstream_receiver_address (er_global_endpoint jito))"
  by (auto simp: get_block_engine_endpoints_def rewrite_endpoints_def rewrite_endpoint_def list_all_iff
      option.map_comp comp_def pred_option_def split: prod.split result.split)

text \<open>
  C34: The stream of a validator delivers the items of the proxy's channel in order, without invention or
  repetition, skipping only reports of lag; it ends exactly when a poll finds it cancelled; and while it
  is not cancelled every item waiting is delivered once enough polls are made.
\<close>

theorem drain_stream_delivers:
  "(\<exists>rest. recv_items (buf @ concat (map fst polls)) = fst (drain_stream polls buf) @ rest) \<and>
   (snd (drain_stream polls buf) \<longleftrightarrow> list_ex snd polls) \<and>
   fst (drain_stream (replicate (length (recv_items buf)) ([], False)) buf) = recv_items buf"
  using drain_stream_prefix_items drain_stream_ended drain_stream_complete by blast

text \<open>
  C35: No task outlives its stream: in every state that the tasks of a served stream reach, once the exit
  flag is up or the validator has dropped the stream, the bridge and the pump end, after at most two
  steps in any order.
\<close>

theorem serve_tasks_end:
  assumes "reach (\<lambda>s. \<exists>u. s = serve_start u) (\<lambda>s s'. serve_step s s' \<or> serve_env s s') s"
    and "ss_exit s \<or> ss_dropped s"
  shows "(\<exists>s'. serve_step\<^sup>*\<^sup>* s s' \<and> \<not> ss_bridge s' \<and> \<not> ss_pump s') \<and>
    (\<forall>s'. serve_step\<^sup>*\<^sup>* s s' \<longrightarrow> (\<forall>s''. \<not> serve_step s' s'') \<longrightarrow> \<not> ss_bridge s' \<and> \<not> ss_pump s') \<and>
    (\<forall>n s'. (serve_step ^^ n) s s' \<longrightarrow> n \<le> 2)"
proof -
  have inv: "serve_inv s \<and> (ss_exit s \<or> ss_dropped s)" using serve.inv_reach [OF assms(1)] assms(2) by blast
  have "n \<le> 2" if "(serve_step ^^ n) s s'" for n s'
    using serve.steps_bounded [OF inv that] by (simp add: serve_measure_def split: if_splits)
  then show ?thesis using serve.reaches_goal [OF inv] serve.stuck_goal [OF inv] by blast
qed

theorem serve_tasks_end_witness:
  "\<exists>s'. serve_step\<^sup>*\<^sup>* ((serve_start True)\<lparr>ss_exit := True\<rparr>) s' \<and> \<not> ss_bridge s' \<and> \<not> ss_pump s'"
proof -
  have "reach (\<lambda>s. \<exists>u. s = serve_start u) (\<lambda>s s'. serve_step s s' \<or> serve_env s s') ((serve_start True)\<lparr>ss_exit := True\<rparr>)"
    by (rule reach_step [OF reach_init]) (blast, blast intro: serve_env.exit_raised)
  from serve_tasks_end [OF this] show ?thesis by simp
qed

end
