(* ===== verification/Block_Service.thy ===== *)
theory Block_Service
  imports Block_Engine
begin

text \<open>
  The service of \<open>src/blockengine/service.rs\<close> as an object: its two pools of clients, its ends of the four
  broadcast channels, and one definition for each request a validator can make. \<open>Block_Engine\<close> has the parts
  they share.

  A broadcast channel belongs to tokio and is named by a value of \<open>'h\<close>, for its senders and receivers alike:
  cloning a sender keeps the name, and \<open>sub h\<close> is what subscribing to it does to the world.
\<close>

section \<open>The service\<close>

record ('c, 'a, 'h) blockengine_service =
  bs_blockengine_url :: string
  bs_local_blockengine_url :: string
  bs_client_pool :: "'c pool"
  bs_auth_client_pool :: "'a pool"
  bs_packet_from_proxy :: 'h
  bs_packet_from_blockengine :: 'h
  bs_bundle_from_proxy :: 'h
  bs_bundle_from_blockengine :: 'h

definition blockengine_service_new :: "string \<Rightarrow> string \<Rightarrow> 'h \<Rightarrow> 'h \<Rightarrow> 'h \<Rightarrow> 'h \<Rightarrow> ('c, 'a, 'h) blockengine_service" where
  "blockengine_service_new blockengine_url local_url packet_from_proxy packet_from_blockengine
       bundle_from_proxy bundle_from_blockengine =
     \<lparr>bs_blockengine_url = blockengine_url, bs_local_blockengine_url = local_url,
      bs_client_pool = hm_empty, bs_auth_client_pool = hm_empty,
      bs_packet_from_proxy = packet_from_proxy, bs_packet_from_blockengine = packet_from_blockengine,
      bs_bundle_from_proxy = bundle_from_proxy, bs_bundle_from_blockengine = bundle_from_blockengine\<rparr>"

text \<open>As in \<open>get_pooled_client\<close>, \<open>env\<close> is what other requests do to the pool while this one connects.\<close>

definition get_block_engine_client :: "('e, 'ch, 'w) upstream \<Rightarrow> ('ch \<Rightarrow> 'c) \<Rightarrow> ('c pool \<Rightarrow> 'c pool) \<Rightarrow>
    socket_addr option \<Rightarrow> ('c, ('c, 'a, 'h) blockengine_service, 'w) getter" where
  "get_block_engine_client up mk env peer sw = (case sw of (s, w) \<Rightarrow>
     (case get_pooled_client up (bs_blockengine_url s) peer mk env (bs_client_pool s, w) of
        (r, pool, w') \<Rightarrow> (r, s\<lparr>bs_client_pool := pool\<rparr>, w')))"

definition get_auth_client :: "('e, 'ch, 'w) upstream \<Rightarrow> ('ch \<Rightarrow> 'a) \<Rightarrow> ('a pool \<Rightarrow> 'a pool) \<Rightarrow>
    socket_addr option \<Rightarrow> ('a, ('c, 'a, 'h) blockengine_service, 'w) getter" where
  "get_auth_client up mk env peer sw = (case sw of (s, w) \<Rightarrow>
     (case get_pooled_client up (bs_blockengine_url s) peer mk env (bs_auth_client_pool s, w) of
        (r, pool, w') \<Rightarrow> (r, s\<lparr>bs_auth_client_pool := pool\<rparr>, w')))"

section \<open>Streams\<close>

text \<open>
  What \<open>serve_proxy_stream\<close> sets up: the channel the validator reads from, the channel the pump writes to, the
  upstream the pump reads, and the tasks.
\<close>

record ('u, 'h) served =
  sd_from_proxy :: 'h
  sd_blockengine_tx :: 'h
  sd_upstream :: "'u option"
  sd_tasks :: serve_state

definition serve_proxy_stream :: "'h \<Rightarrow> 'h \<Rightarrow> 'u option \<Rightarrow> ('u, 'h) served" where
  "serve_proxy_stream from_proxy blockengine_tx upstream =
     \<lparr>sd_from_proxy = from_proxy, sd_blockengine_tx = blockengine_tx, sd_upstream = upstream,
      sd_tasks = serve_start (upstream \<noteq> None)\<rparr>"

type_synonym ('c, 'a, 'h, 'r, 'w) handler =
  "('c, 'a, 'h) blockengine_service \<times> 'w \<Rightarrow> ('r, grpc_status) result \<times> ('c, 'a, 'h) blockengine_service \<times> 'w"

definition be_subscribe_packets :: "('e, 'ch, 'w) upstream \<Rightarrow> ('ch \<Rightarrow> 'c) \<Rightarrow> ('c pool \<Rightarrow> 'c pool) \<Rightarrow> ('h \<Rightarrow> 'w \<Rightarrow> 'w) \<Rightarrow>
    ('c, 'req, 'u, 'w) call \<Rightarrow> socket_addr option \<Rightarrow> 'req \<Rightarrow> ('c, 'a, 'h, ('u, 'h) served, 'w) handler" where
  "be_subscribe_packets up mk env sub call peer req sw =
     (case sw of (s, w) \<Rightarrow>
       let from_proxy = bs_packet_from_proxy s; w0 = sub from_proxy w
       in case subscribe_upstream (get_block_engine_client up mk env peer) call req (s, w0) of
            (Err e, sw') \<Rightarrow> (Err e, sw')
          | (Ok up_resp, s', w') \<Rightarrow>
              (Ok (serve_proxy_stream from_proxy (bs_packet_from_blockengine s) up_resp), s', w'))"

definition be_subscribe_bundles :: "('e, 'ch, 'w) upstream \<Rightarrow> ('ch \<Rightarrow> 'c) \<Rightarrow> ('c pool \<Rightarrow> 'c pool) \<Rightarrow> ('h \<Rightarrow> 'w \<Rightarrow> 'w) \<Rightarrow>
    ('c, 'req, 'u, 'w) call \<Rightarrow> socket_addr option \<Rightarrow> 'req \<Rightarrow> ('c, 'a, 'h, ('u, 'h) served, 'w) handler" where
  "be_subscribe_bundles up mk env sub call peer req sw =
     (case sw of (s, w) \<Rightarrow>
       let from_proxy = bs_bundle_from_proxy s; w0 = sub from_proxy w
       in case subscribe_upstream (get_block_engine_client up mk env peer) call req (s, w0) of
            (Err e, sw') \<Rightarrow> (Err e, sw')
          | (Ok up_resp, s', w') \<Rightarrow>
              (Ok (serve_proxy_stream from_proxy (bs_bundle_from_blockengine s) up_resp), s', w'))"

section \<open>Requests passed on\<close>

definition get_block_builder_fee_info :: "('e, 'ch, 'w) upstream \<Rightarrow> ('ch \<Rightarrow> 'c) \<Rightarrow> ('c pool \<Rightarrow> 'c pool) \<Rightarrow>
    ('c, 'req, 'resp, 'w) call \<Rightarrow> socket_addr option \<Rightarrow> 'req \<Rightarrow> ('c, 'a, 'h, 'resp, 'w) handler" where
  "get_block_builder_fee_info up mk env call peer req sw =
     pass_through (get_block_engine_client up mk env peer) call req sw"

definition be_get_block_engine_endpoints :: "('e, 'ch, 'w) upstream \<Rightarrow> ('ch \<Rightarrow> 'c) \<Rightarrow> ('c pool \<Rightarrow> 'c pool) \<Rightarrow>
    ('c, 'req, endpoints_response, 'w) call \<Rightarrow> socket_addr option \<Rightarrow> 'req \<Rightarrow>
    ('c, 'a, 'h, endpoints_response, 'w) handler" where
  "be_get_block_engine_endpoints up mk env call peer req sw =
     get_block_engine_endpoints (bs_local_blockengine_url (fst sw)) (get_block_engine_client up mk env peer) call req sw"

text \<open>The requests of the authentication service, with the call of the upstream that each of them makes.\<close>

definition be_generate_auth_challenge :: "('e, 'ch, 'w) upstream \<Rightarrow> ('ch \<Rightarrow> 'a) \<Rightarrow> ('a pool \<Rightarrow> 'a pool) \<Rightarrow>
    ('a, 'req, 'resp, 'w) call \<Rightarrow> socket_addr option \<Rightarrow> 'req \<Rightarrow> ('c, 'a, 'h, 'resp, 'w) handler" where
  "be_generate_auth_challenge up mk env call peer req sw =
     pass_through (get_auth_client up mk env peer) call req sw"

definition be_generate_auth_tokens :: "('e, 'ch, 'w) upstream \<Rightarrow> ('ch \<Rightarrow> 'a) \<Rightarrow> ('a pool \<Rightarrow> 'a pool) \<Rightarrow>
    ('a, 'req, 'resp, 'w) call \<Rightarrow> socket_addr option \<Rightarrow> 'req \<Rightarrow> ('c, 'a, 'h, 'resp, 'w) handler" where
  "be_generate_auth_tokens up mk env call peer req sw =
     pass_through (get_auth_client up mk env peer) call req sw"

definition be_refresh_access_token :: "('e, 'ch, 'w) upstream \<Rightarrow> ('ch \<Rightarrow> 'a) \<Rightarrow> ('a pool \<Rightarrow> 'a pool) \<Rightarrow>
    ('a, 'req, 'resp, 'w) call \<Rightarrow> socket_addr option \<Rightarrow> 'req \<Rightarrow> ('c, 'a, 'h, 'resp, 'w) handler" where
  "be_refresh_access_token up mk env call peer req sw =
     pass_through (get_auth_client up mk env peer) call req sw"

section \<open>Interleavings\<close>

text \<open>
  What happens to a pool: a client is stored for an address. A request does so at most once, after others may
  have done it any number of times; the service changes in no other way.
\<close>

inductive pool_step :: "'c pool \<Rightarrow> 'c pool \<Rightarrow> bool" where
  store: "pool_step pool (hm_insert addr client pool)"

inductive service_step :: "('c, 'a, 'h) blockengine_service \<Rightarrow> ('c, 'a, 'h) blockengine_service \<Rightarrow> bool" where
  client: "pool_step (bs_client_pool s) pool \<Longrightarrow> service_step s (s\<lparr>bs_client_pool := pool\<rparr>)"
| auth_client: "pool_step (bs_auth_client_pool s) pool \<Longrightarrow> service_step s (s\<lparr>bs_auth_client_pool := pool\<rparr>)"

definition env_stores :: "('c pool \<Rightarrow> 'c pool) \<Rightarrow> bool" where
  "env_stores env \<longleftrightarrow> (\<forall>pool. pool_step\<^sup>*\<^sup>* pool (env pool))"

lemma get_pooled_client_stores:
  "env_stores env \<Longrightarrow> pool_step\<^sup>*\<^sup>* pool (fst (snd (get_pooled_client up url peer mk env (pool, w))))"
  by (auto simp: env_stores_def get_pooled_client_def Let_def
      intro: rtranclp.rtrancl_into_rtrancl pool_step.store split: option.split result.split prod.split)

lemma client_steps: "pool_step\<^sup>*\<^sup>* (bs_client_pool s) pool \<Longrightarrow> service_step\<^sup>*\<^sup>* s (s\<lparr>bs_client_pool := pool\<rparr>)"
proof (induction rule: rtranclp_induct)
  case (step pool pool')
  have "service_step (s\<lparr>bs_client_pool := pool\<rparr>) (s\<lparr>bs_client_pool := pool\<rparr>\<lparr>bs_client_pool := pool'\<rparr>)"
    using step(2) by (intro service_step.client) simp
  with step(3) show ?case by simp
qed simp

lemma auth_client_steps: "pool_step\<^sup>*\<^sup>* (bs_auth_client_pool s) pool \<Longrightarrow> service_step\<^sup>*\<^sup>* s (s\<lparr>bs_auth_client_pool := pool\<rparr>)"
proof (induction rule: rtranclp_induct)
  case (step pool pool')
  have "service_step (s\<lparr>bs_auth_client_pool := pool\<rparr>) (s\<lparr>bs_auth_client_pool := pool\<rparr>\<lparr>bs_auth_client_pool := pool'\<rparr>)"
    using step(2) by (intro service_step.auth_client) simp
  with step(3) show ?case by simp
qed simp

text \<open>An operation on the service that only stores clients; the generic bodies add nothing to their getter.\<close>

definition stores :: "(('c, 'a, 'h) blockengine_service \<times> 'w \<Rightarrow> 'r \<times> ('c, 'a, 'h) blockengine_service \<times> 'w) \<Rightarrow> bool" where
  "stores f \<longleftrightarrow> (\<forall>sw. service_step\<^sup>*\<^sup>* (fst sw) (fst (snd (f sw))))"

lemma getter_state:
  "fst (snd (get_block_engine_client up mk env peer sw)) = (fst sw)\<lparr>bs_client_pool :=
     fst (snd (get_pooled_client up (bs_blockengine_url (fst sw)) peer mk env (bs_client_pool (fst sw), snd sw)))\<rparr>"
  "fst (snd (get_auth_client up mk' env' peer sw)) = (fst sw)\<lparr>bs_auth_client_pool :=
     fst (snd (get_pooled_client up (bs_blockengine_url (fst sw)) peer mk' env' (bs_auth_client_pool (fst sw), snd sw)))\<rparr>"
  by (simp_all add: get_block_engine_client_def get_auth_client_def split: prod.split)

lemma get_block_engine_client_steps:
  "env_stores env \<Longrightarrow> service_step\<^sup>*\<^sup>* s (fst (snd (get_block_engine_client up mk env peer (s, w))))"
  unfolding getter_state fst_conv snd_conv by (intro client_steps get_pooled_client_stores)

lemma get_auth_client_steps:
  "env_stores env \<Longrightarrow> service_step\<^sup>*\<^sup>* s (fst (snd (get_auth_client up mk env peer (s, w))))"
  unfolding getter_state fst_conv snd_conv by (intro auth_client_steps get_pooled_client_stores)

lemma body_state:
  "fst (snd (pass_through get call req sw)) = fst (snd (get sw))"
  "fst (snd (subscribe_upstream get call' req sw)) = fst (snd (get sw))"
  "fst (snd (get_block_engine_endpoints local_url get call'' req sw)) = fst (snd (get sw))"
  by (auto simp: pass_through_def subscribe_upstream_def get_block_engine_endpoints_def
      split: prod.splits result.splits)

lemma subscribe_state:
  "fst (snd (be_subscribe_packets up mk env sub call peer req sw)) =
     fst (snd (get_block_engine_client up mk env peer (fst sw, sub (bs_packet_from_proxy (fst sw)) (snd sw))))"
  "fst (snd (be_subscribe_bundles up mk env sub call peer req sw)) =
     fst (snd (get_block_engine_client up mk env peer (fst sw, sub (bs_bundle_from_proxy (fst sw)) (snd sw))))"
  using body_state(2) [of "get_block_engine_client up mk env peer" call req
      "(fst sw, sub (bs_packet_from_proxy (fst sw)) (snd sw))"]
    body_state(2) [of "get_block_engine_client up mk env peer" call req
      "(fst sw, sub (bs_bundle_from_proxy (fst sw)) (snd sw))"]
  by (auto simp: be_subscribe_packets_def be_subscribe_bundles_def Let_def split: prod.splits result.splits)

text \<open>
  Every request, under any interference by other requests on the pool it uses, changes the service by storing
  clients only.
\<close>

theorem requests_are_steps:
  assumes "env_stores env" and "env_stores env'"
  shows "stores (be_subscribe_packets up mk env sub packets peer req1)"
    and "stores (be_subscribe_bundles up mk env sub bundles peer req2)"
    and "stores (get_block_builder_fee_info up mk env fee_info peer req3)"
    and "stores (be_get_block_engine_endpoints up mk env endpoints peer req4)"
    and "stores (be_generate_auth_challenge up mk' env' challenge peer req5)"
    and "stores (be_generate_auth_tokens up mk' env' tokens peer req6)"
    and "stores (be_refresh_access_token up mk' env' refresh peer req7)"
  by (simp_all add: stores_def subscribe_state body_state get_block_builder_fee_info_def be_get_block_engine_endpoints_def
      be_generate_auth_challenge_def be_generate_auth_tokens_def be_refresh_access_token_def 
      get_block_engine_client_steps [OF assms(1)] get_auth_client_steps [OF assms(2)])

section \<open>The invariant\<close>

text \<open>The addresses and channels of the service never change and its pools stay well-formed.\<close>

definition bs_config :: "('c, 'a, 'h) blockengine_service \<Rightarrow> string \<times> string \<times> 'h \<times> 'h \<times> 'h \<times> 'h" where
  "bs_config s = (bs_blockengine_url s, bs_local_blockengine_url s, bs_packet_from_proxy s, bs_packet_from_blockengine s,
     bs_bundle_from_proxy s, bs_bundle_from_blockengine s)"

definition service_inv :: "string \<times> string \<times> 'h \<times> 'h \<times> 'h \<times> 'h \<Rightarrow> ('c, 'a, 'h) blockengine_service \<Rightarrow> bool" where
  "service_inv cfg s \<longleftrightarrow> bs_config s = cfg \<and> hm_invar (bs_client_pool s) \<and> hm_invar (bs_auth_client_pool s)"

abbreviation service_init where
  "service_init cfg s \<equiv> bs_config s = cfg \<and> bs_client_pool s = hm_empty \<and> bs_auth_client_pool s = hm_empty"

interpretation bsv: inductive_invariant "service_init cfg" service_step "service_inv cfg" for cfg
  by unfold_locales
     (auto simp: service_inv_def bs_config_def pool_step.simps hm.invar_empty hm.invar_insert elim!: service_step.cases)

lemma service_steps_config: "service_step\<^sup>*\<^sup>* s s' \<Longrightarrow> bs_config s' = bs_config s"
  by (induction rule: rtranclp_induct) (auto simp: bs_config_def elim!: service_step.cases)

text \<open>What a stream is made of.\<close>

lemma be_subscribe_packets_Ok:
  assumes "be_subscribe_packets up mk env sub call peer req (s, w) = (Ok str, s', w')"
  shows "\<exists>u. str = serve_proxy_stream (bs_packet_from_proxy s) (bs_packet_from_blockengine s) u"
  using assms by (auto simp: be_subscribe_packets_def Let_def split: prod.splits result.splits)

lemma be_subscribe_bundles_Ok:
  assumes "be_subscribe_bundles up mk env sub call peer req (s, w) = (Ok str, s', w')"
  shows "\<exists>u. str = serve_proxy_stream (bs_bundle_from_proxy s) (bs_bundle_from_blockengine s) u"
  using assms by (auto simp: be_subscribe_bundles_def Let_def split: prod.splits result.splits)

text \<open>
  The two pools do not mix: a request to the block engine leaves the clients of the authentication service as
  they are, and the other way round.
\<close>

theorem pools_apart:
  "bs_auth_client_pool (fst (snd (get_block_engine_client up mk env peer sw))) = bs_auth_client_pool (fst sw)"
  "bs_client_pool (fst (snd (get_auth_client up mk' env' peer sw))) = bs_client_pool (fst sw)"
  by (simp_all add: getter_state)

end
