(* ===== verification/Staked_Nodes.thy ===== *)
theory Staked_Nodes
  imports Hash_Map
begin

text \<open>
  \<open>src/relayer/staked_nodes_updater_service.rs\<close>: the thread that refreshes the stake table, and the thread
  counts of \<open>src/relayer/tpu.rs\<close>.

  The RPC client, \<open>Pubkey::from_str\<close> and \<open>StakedNodes::new\<close> belong to other crates and are arguments. A
  round of the thread has the readings of the clock in its three places and the answer of the RPC server.
\<close>

record vote_account =
  va_node_pubkey :: string
  va_activated_stake :: u64

record vote_accounts =
  vs_current :: "vote_account list"
  vs_delinquent :: "vote_account list"

definition PK_TO_STAKE_REFRESH_DURATION :: duration where
  "PK_TO_STAKE_REFRESH_DURATION = from_secs 5"

type_synonym 'k stake_map = "('k, u64) hmap"

definition stake_pairs :: "(string \<Rightarrow> 'k option) \<Rightarrow> vote_accounts \<Rightarrow> ('k \<times> u64) list" where
  "stake_pairs from_str va =
     List.map_filter (\<lambda>v. map_option (\<lambda>k. (k, va_activated_stake v)) (from_str (va_node_pubkey v)))
       (vs_current va @ vs_delinquent va)"

text \<open>The result with the new values of \<open>last_stakes\<close> and of the map.\<close>

definition try_refresh_pk_to_stake :: "(string \<Rightarrow> 'k option) \<Rightarrow> instant \<Rightarrow> instant \<Rightarrow> (vote_accounts, 'e) result \<Rightarrow>
    instant \<times> 'k stake_map \<Rightarrow> (bool, 'e) result \<times> instant \<times> 'k stake_map" where
  "try_refresh_pk_to_stake from_str now now' rpc st =
     (case st of (last_stakes, pubkey_stake_map) \<Rightarrow>
       if elapsed now last_stakes > PK_TO_STAKE_REFRESH_DURATION
       then (case rpc of
               Err e \<Rightarrow> (Err e, last_stakes, pubkey_stake_map)
             | Ok va \<Rightarrow> (Ok True, now', hm_collect (stake_pairs from_str va)))
       else (Ok False, last_stakes, pubkey_stake_map))"

record 'e updater_round =
  ur_gate :: instant
  ur_check :: instant
  ur_done :: instant
  ur_rpc :: "(vote_accounts, 'e) result"

text \<open>\<open>us_log\<close> records the refreshes: the time and the answer of the server.\<close>

record ('s, 'e) updater =
  us_last_stakes :: instant
  us_shared :: 's
  us_log :: "(instant \<times> (vote_accounts, 'e) result) list"

definition updater_start :: "instant \<Rightarrow> 's \<Rightarrow> ('s, 'e) updater" where
  "updater_start now shared = \<lparr>us_last_stakes = now, us_shared = shared, us_log = []\<rparr>"

definition updater_step :: "(string \<Rightarrow> 'k option) \<Rightarrow> ('k stake_map \<Rightarrow> 'o \<Rightarrow> 's) \<Rightarrow> 'o \<Rightarrow> 'e updater_round \<Rightarrow>
    ('s, 'e) updater \<Rightarrow> ('s, 'e) updater" where
  "updater_step from_str staked_nodes overrides r u =
     (if elapsed (ur_gate r) (us_last_stakes u) div from_secs 1 \<ge> 60
      then (case try_refresh_pk_to_stake from_str (ur_check r) (ur_done r) (ur_rpc r) (us_last_stakes u, hm_empty) of
              (Ok True, last_stakes, stake_map) \<Rightarrow>
                u\<lparr>us_last_stakes := last_stakes, us_shared := staked_nodes stake_map overrides,
                  us_log := us_log u @ [(ur_done r, ur_rpc r)]\<rparr>
            | (Ok False, last_stakes, _) \<Rightarrow> u\<lparr>us_last_stakes := last_stakes\<rparr>
            | (Err e, last_stakes, _) \<Rightarrow> u\<lparr>us_last_stakes := last_stakes\<rparr>)
      else u)"

fun updater_run :: "(string \<Rightarrow> 'k option) \<Rightarrow> ('k stake_map \<Rightarrow> 'o \<Rightarrow> 's) \<Rightarrow> 'o \<Rightarrow> 'e updater_round list \<Rightarrow>
    ('s, 'e) updater \<Rightarrow> ('s, 'e) updater" where
  "updater_run from_str staked_nodes overrides [] u = u"
| "updater_run from_str staked_nodes overrides (r # rs) u =
     updater_run from_str staked_nodes overrides rs (updater_step from_str staked_nodes overrides r u)"

section \<open>Thread counts\<close>

definition quic_threads :: "nat \<Rightarrow> nat" where
  "quic_threads cores = max (cores div 8) 2"

definition sigverify_threads :: "nat \<Rightarrow> nat" where
  "sigverify_threads cores = max (cores - 2 * quic_threads cores) 2"

section \<open>Properties\<close>

lemma sixty_seconds: "60 \<le> d div from_secs (Suc 0) \<longleftrightarrow> from_secs 60 \<le> d"
  by (simp add: from_secs_def less_eq_div_iff_mult_less_eq)

definition refreshed :: "(string \<Rightarrow> 'k option) \<Rightarrow> ('k stake_map \<Rightarrow> 'o \<Rightarrow> 's) \<Rightarrow> 'o \<Rightarrow> 'e updater_round \<Rightarrow> vote_accounts \<Rightarrow>
    ('s, 'e) updater \<Rightarrow> ('s, 'e) updater" where
  "refreshed from_str staked_nodes overrides r va u =
     u\<lparr>us_last_stakes := ur_done r, us_shared := staked_nodes (hm_collect (stake_pairs from_str va)) overrides,
       us_log := us_log u @ [(ur_done r, ur_rpc r)]\<rparr>"

lemma updater_step_cases:
  assumes "ur_gate r \<le> ur_check r"
  shows "updater_step from_str staked_nodes overrides r u =
    (case ur_rpc r of
       Ok va \<Rightarrow> if us_last_stakes u + from_secs 60 \<le> ur_gate r then refreshed from_str staked_nodes overrides r va u else u
     | Err _ \<Rightarrow> u)"
proof (cases "from_secs 60 \<le> ur_gate r - us_last_stakes u")
  case True
  then have "PK_TO_STAKE_REFRESH_DURATION < elapsed (ur_check r) (us_last_stakes u)"
    using assms by (simp add: PK_TO_STAKE_REFRESH_DURATION_def elapsed_def from_secs_def)
  moreover have "us_last_stakes u + from_secs 60 \<le> ur_gate r" using True by (simp add: from_secs_def)
  ultimately show ?thesis
    using True by (simp add: updater_step_def sixty_seconds elapsed_def try_refresh_pk_to_stake_def refreshed_def
        split: result.split)
next
  case False
  then have "\<not> us_last_stakes u + from_secs 60 \<le> ur_gate r" by (simp add: from_secs_def)
  then show ?thesis
    using False by (simp add: updater_step_def sixty_seconds elapsed_def split: result.split)
qed

text \<open>
  A round of the updater replaces the stake table exactly when at least 60 seconds have passed since
  the last replacement and the RPC server answers; the further test for five seconds never fails. In the
  new table a key has the stake of its last entry among the current and then the delinquent accounts.
\<close>

theorem updater_step_refreshes:
  assumes "ur_gate r \<le> ur_check r"
  shows "updater_step from_str staked_nodes overrides r u =
      (case ur_rpc r of
         Ok va \<Rightarrow>
           if us_last_stakes u + from_secs 60 \<le> ur_gate r
           then u\<lparr>us_last_stakes := ur_done r,
                  us_shared := staked_nodes (hm_collect (stake_pairs from_str va)) overrides,
                  us_log := us_log u @ [(ur_done r, ur_rpc r)]\<rparr>
           else u
       | Err _ \<Rightarrow> u) \<and>
    hm_get (hm_collect (stake_pairs from_str va)) k = map_of (rev (stake_pairs from_str va)) k"
  unfolding updater_step_cases [OF assms] refreshed_def hm_get_collect by simp

definition va_example :: vote_accounts where
  "va_example = \<lparr>vs_current = [\<lparr>va_node_pubkey = ''a'', va_activated_stake = 5\<rparr>],
     vs_delinquent = [\<lparr>va_node_pubkey = ''a'', va_activated_stake = 9\<rparr>]\<rparr>"

definition round_example :: "nat \<Rightarrow> string updater_round" where
  "round_example t = \<lparr>ur_gate = from_secs t, ur_check = from_secs t, ur_done = from_secs (Suc t), ur_rpc = Ok va_example\<rparr>"

theorem updater_step_refreshes_witness:
  "hm_get (us_shared (updater_step Some (\<lambda>m _. m) () (round_example 60) (updater_start 0 hm_empty))) ''a'' = Some 9"
  using updater_step_refreshes [of "round_example 60" Some "\<lambda>m _. m" "()" "updater_start 0 hm_empty" va_example "''a''"]
  by (simp add: round_example_def updater_start_def stake_pairs_def va_example_def List.map_filter_def)

definition updater_inv :: "instant \<Rightarrow> 's \<Rightarrow> (string \<Rightarrow> 'k option) \<Rightarrow> ('k stake_map \<Rightarrow> 'o \<Rightarrow> 's) \<Rightarrow> 'o \<Rightarrow> ('s, 'e) updater \<Rightarrow> bool" where
  "updater_inv start shared0 from_str staked_nodes overrides u \<longleftrightarrow>
     us_last_stakes u = last (start # map fst (us_log u)) \<and>
     successively (\<lambda>a b. a + from_secs 60 \<le> b) (start # map fst (us_log u)) \<and>
     (if us_log u = [] then us_shared u = shared0
      else \<exists>va. snd (last (us_log u)) = Ok va \<and>
        us_shared u = staked_nodes (hm_collect (stake_pairs from_str va)) overrides)"

lemma updater_inv_step:
  assumes "updater_inv start shared0 from_str staked_nodes overrides u"
    and "ur_gate r \<le> ur_check r" and "ur_check r \<le> ur_done r"
  shows "updater_inv start shared0 from_str staked_nodes overrides (updater_step from_str staked_nodes overrides r u)"
proof (cases "ur_rpc r")
  case (Ok va)
  show ?thesis
  proof (cases "us_last_stakes u + from_secs 60 \<le> ur_gate r")
    case True
    have "successively (\<lambda>a b. a + from_secs 60 \<le> b) ((start # map fst (us_log u)) @ [ur_done r])"
      using assms True unfolding successively_append_iff by (simp add: updater_inv_def)
    then show ?thesis
      using Ok True by (simp add: updater_step_cases [OF assms(2)] refreshed_def updater_inv_def)
  next
    case False
    then show ?thesis using Ok assms by (simp add: updater_step_cases [OF assms(2)])
  qed
next
  case (Err e)
  then show ?thesis using assms by (simp add: updater_step_cases [OF assms(2)])
qed

text \<open>
  C36: Over any run of the thread the refreshes are at least 60 seconds apart, the first at least 60
  seconds after the start, and the table shared with the QUIC servers is the initial one until the first
  refresh and then always that of the last answer, with the overrides.
\<close>

theorem updater_run_table:
  assumes "list_all (\<lambda>r. ur_gate r \<le> ur_check r \<and> ur_check r \<le> ur_done r) rounds"
    and "u = updater_run from_str staked_nodes overrides rounds (updater_start start shared0)"
  shows "successively (\<lambda>a b. a + from_secs 60 \<le> b) (start # map fst (us_log u)) \<and>
    (if us_log u = [] then us_shared u = shared0
     else \<exists>va. snd (last (us_log u)) = Ok va \<and>
       us_shared u = staked_nodes (hm_collect (stake_pairs from_str va)) overrides)"
proof -
  have "updater_inv start shared0 from_str staked_nodes overrides
      (updater_run from_str staked_nodes overrides rounds u0)"
    if "updater_inv start shared0 from_str staked_nodes overrides u0" for u0
    using that assms(1)
    by (induction rounds arbitrary: u0) (auto intro: updater_inv_step)
  moreover have "updater_inv start shared0 from_str staked_nodes overrides (updater_start start shared0)"
    by (simp add: updater_inv_def updater_start_def)
  ultimately have "updater_inv start shared0 from_str staked_nodes overrides u" unfolding assms(2) by blast
  then show ?thesis unfolding updater_inv_def by blast
qed

theorem updater_run_table_witness:
  "map fst (us_log (updater_run Some (\<lambda>m _. m) () [round_example 1, round_example 60, round_example 90]
      (updater_start 0 hm_empty))) = [from_secs 61] \<and>
   successively (\<lambda>a b. a + from_secs 60 \<le> b) [0, from_secs 61]"
proof -
  let ?u = "updater_run Some (\<lambda>m _. m) () [round_example 1, round_example 60, round_example 90] (updater_start 0 hm_empty)"
  have "map fst (us_log ?u) = [from_secs 61]"
    by (simp add: updater_step_cases round_example_def updater_start_def refreshed_def from_secs_def)
  then show ?thesis
    using updater_run_table [of "[round_example 1, round_example 60, round_example 90]" ?u Some "\<lambda>m _. m" "()" 0 hm_empty]
    by (simp add: round_example_def from_secs_def del: updater_run.simps)
qed

text \<open>
  The QUIC servers and the signature verifier always have at least two threads each, and on a machine
  with six or more cores the two QUIC servers and the verifier together take exactly the cores there are.
\<close>

theorem thread_counts:
  assumes "6 \<le> cores"
  shows "2 \<le> quic_threads n \<and> 2 \<le> sigverify_threads n \<and>
    2 * quic_threads cores + sigverify_threads cores = cores"
proof -
  have "2 * (cores div 8) + 2 \<le> cores" using assms by linarith
  then show ?thesis using assms by (auto simp: quic_threads_def sigverify_threads_def max_def)
qed

theorem thread_counts_witness: "(6 :: nat) \<le> 64 \<and> 2 * quic_threads 64 + sigverify_threads 64 = 64"
  using thread_counts [of 64] by simp

end
