(* ===== verification/Key_Files.thy ===== *)
theory Key_Files
  imports Prelude
begin

text \<open>
  \<open>load_or_generate_keys\<close> of \<open>src/relayer/mod.rs\<close>: the files with the keys that sign and verify tokens.

  A path is a flag for a leading slash and its components. The file system is an argument \<open>os\<close> of
  functions on a world \<open>'w\<close>, and OpenSSL an argument \<open>ssl\<close>; \<open>os_ok\<close> states what the calls promise when
  they succeed. Every panic of the code is a value of \<open>key_panic\<close>.
\<close>

type_synonym path = "bool \<times> string list"

definition path_parent :: "path \<Rightarrow> path option" where
  "path_parent p = (case p of (a, cs) \<Rightarrow> if cs = [] then None else Some (a, butlast cs))"

definition path_is_empty :: "path \<Rightarrow> bool" where
  "path_is_empty p \<longleftrightarrow> p = (False, [])"

record 'w os =
  os_exists :: "path \<Rightarrow> 'w \<Rightarrow> bool"
  os_read :: "path \<Rightarrow> 'w \<Rightarrow> (bytes, string) result"
  os_mode :: "path \<Rightarrow> 'w \<Rightarrow> nat"
  os_write :: "path \<Rightarrow> bytes \<Rightarrow> 'w \<Rightarrow> (unit, string) result \<times> 'w"
  os_create_dir_all :: "path \<Rightarrow> 'w \<Rightarrow> (unit, string) result \<times> 'w"
  os_set_mode :: "path \<Rightarrow> nat \<Rightarrow> 'w \<Rightarrow> (unit, string) result \<times> 'w"

record ('r, 'k, 'w) ssl =
  sl_generate :: "nat \<Rightarrow> 'w \<Rightarrow> ('r, string) result \<times> 'w"
  sl_rsa_to_pem :: "'r \<Rightarrow> (bytes, string) result"
  sl_private_from_pem :: "bytes \<Rightarrow> ('k, string) result"
  sl_public_to_pem :: "'k \<Rightarrow> (bytes, string) result"

datatype key_panic =
    CreateDir string
  | GenerateKey string
  | SerializeKey string
  | WriteKey string
  | SetPermissions string
  | ReadKey string
  | ParseKey string

section \<open>Operations\<close>

type_synonym ('a, 'x, 'w) panicking = "'w \<Rightarrow> ('a, 'x) result \<times> 'w"
type_synonym ('a, 'w) io = "('a, key_panic, 'w) panicking"

definition io_return :: "'a \<Rightarrow> ('a, 'x, 'w) panicking" where
  "io_return x w = (Ok x, w)"

definition io_bind :: "('a, 'x, 'w) panicking \<Rightarrow> ('a \<Rightarrow> ('b, 'x, 'w) panicking) \<Rightarrow> ('b, 'x, 'w) panicking" where
  "io_bind f g w = (case f w of (Ok x, w') \<Rightarrow> g x w' | (Err e, w') \<Rightarrow> (Err e, w'))"

text \<open>\<open>expect\<close> and \<open>unwrap_or_else(panic)\<close> on a call.\<close>

definition expect :: "('e \<Rightarrow> 'x) \<Rightarrow> ('a, 'e, 'w) panicking \<Rightarrow> ('a, 'x, 'w) panicking" where
  "expect p f w = (case f w of (Ok x, w') \<Rightarrow> (Ok x, w') | (Err e, w') \<Rightarrow> (Err (p e), w'))"

definition pure_call :: "('a, 'e) result \<Rightarrow> ('a, 'e, 'w) panicking" where
  "pure_call r w = (r, w)"

definition ensure_parent_dir :: "'w os \<Rightarrow> path \<Rightarrow> (unit, 'w) io" where
  "ensure_parent_dir os p =
     (case path_parent p of
        Some parent \<Rightarrow>
          if \<not> path_is_empty parent then expect CreateDir (os_create_dir_all os parent) else io_return ()
      | None \<Rightarrow> io_return ())"

definition restrict_permissions :: "'w os \<Rightarrow> path \<Rightarrow> (unit, 'w) io" where
  "restrict_permissions os p = expect SetPermissions (os_set_mode os p 384)"

definition generate_signing_key :: "'w os \<Rightarrow> ('r, 'k, 'w) ssl \<Rightarrow> path \<Rightarrow> (unit, 'w) io" where
  "generate_signing_key os ssl p =
     io_bind (ensure_parent_dir os p) (\<lambda>_.
     io_bind (expect GenerateKey (sl_generate ssl 2048)) (\<lambda>rsa.
     io_bind (expect SerializeKey (pure_call (sl_rsa_to_pem ssl rsa))) (\<lambda>pem.
     io_bind (expect WriteKey (os_write os p pem)) (\<lambda>_.
     restrict_permissions os p))))"

definition derive_verifying_key :: "'w os \<Rightarrow> ('r, 'k, 'w) ssl \<Rightarrow> bytes \<Rightarrow> path \<Rightarrow> (unit, 'w) io" where
  "derive_verifying_key os ssl private_key p =
     io_bind (ensure_parent_dir os p) (\<lambda>_.
     io_bind (expect ParseKey (pure_call (sl_private_from_pem ssl private_key))) (\<lambda>pkey.
     io_bind (expect SerializeKey (pure_call (sl_public_to_pem ssl pkey))) (\<lambda>pem.
     expect WriteKey (os_write os p pem))))"

definition unless_exists :: "'w os \<Rightarrow> path \<Rightarrow> (unit, 'w) io \<Rightarrow> (unit, 'w) io" where
  "unless_exists os p f w = (if \<not> os_exists os p w then f w else (Ok (), w))"

definition read_key :: "'w os \<Rightarrow> path \<Rightarrow> (bytes, 'w) io" where
  "read_key os p = expect ReadKey (\<lambda>w. (os_read os p w, w))"

definition load_or_generate_keys :: "'w os \<Rightarrow> ('r, 'k, 'w) ssl \<Rightarrow> path \<Rightarrow> path \<Rightarrow> (bytes \<times> bytes, 'w) io" where
  "load_or_generate_keys os ssl signing_key_pem_path verifying_key_pem_path =
     io_bind (unless_exists os signing_key_pem_path (generate_signing_key os ssl signing_key_pem_path)) (\<lambda>_.
     io_bind (read_key os signing_key_pem_path) (\<lambda>private_key.
     io_bind (unless_exists os verifying_key_pem_path
       (derive_verifying_key os ssl private_key verifying_key_pem_path)) (\<lambda>_.
     io_bind (read_key os verifying_key_pem_path) (\<lambda>public_key.
     io_return (private_key, public_key)))))"

section \<open>What the calls promise\<close>

text \<open>\<open>same_file\<close>: the file at a path is the same in two worlds.\<close>

definition same_file :: "'w os \<Rightarrow> path \<Rightarrow> 'w \<Rightarrow> 'w \<Rightarrow> bool" where
  "same_file os p w w' \<longleftrightarrow>
     os_exists os p w' = os_exists os p w \<and> os_read os p w' = os_read os p w \<and> os_mode os p w' = os_mode os p w"

definition path_above :: "path \<Rightarrow> path \<Rightarrow> bool" where
  "path_above p q \<longleftrightarrow> fst p = fst q \<and> (\<exists>cs. snd q = snd p @ cs)"

definition os_ok :: "'w os \<Rightarrow> ('r, 'k, 'w) ssl \<Rightarrow> bool" where
  "os_ok os ssl \<longleftrightarrow>
     (\<forall>p b w w'. os_write os p b w = (Ok (), w') \<longrightarrow>
        os_exists os p w' \<and> os_read os p w' = Ok b \<and> (\<forall>q. q \<noteq> p \<longrightarrow> same_file os q w w')) \<and>
     (\<forall>p m w w'. os_set_mode os p m w = (Ok (), w') \<longrightarrow>
        os_mode os p w' = m \<and> os_exists os p w' = os_exists os p w \<and> os_read os p w' = os_read os p w \<and>
        (\<forall>q. q \<noteq> p \<longrightarrow> same_file os q w w')) \<and>
     (\<forall>p w w'. os_create_dir_all os p w = (Ok (), w') \<longrightarrow>
        (\<forall>q. \<not> path_above q p \<longrightarrow> same_file os q w w')) \<and>
     (\<forall>n r w w' q. sl_generate ssl n w = (r, w') \<longrightarrow> same_file os q w w')"

section \<open>Lemmas\<close>

lemma io_bind_eq_Ok:
  "io_bind f g w = (Ok y, w'') \<longleftrightarrow> (\<exists>x w'. f w = (Ok x, w') \<and> g x w' = (Ok y, w''))"
  by (auto simp: io_bind_def split: prod.splits result.splits)

lemma expect_eq_Ok: "expect p f w = (Ok x, w') \<longleftrightarrow> f w = (Ok x, w')"
  by (auto simp: expect_def split: prod.splits result.splits)

lemmas io_simps = io_bind_eq_Ok expect_eq_Ok io_return_def pure_call_def unless_exists_def read_key_def

lemma same_file_refl [simp]: "same_file os p w w"
  by (simp add: same_file_def)

lemma same_file_trans: "same_file os p w w1 \<Longrightarrow> same_file os p w1 w2 \<Longrightarrow> same_file os p w w2"
  by (simp add: same_file_def)

lemma os_ok_write:
  assumes "os_ok os ssl" and "os_write os p b w = (Ok (), w')"
  shows "os_exists os p w'" "os_read os p w' = Ok b" "q \<noteq> p \<Longrightarrow> same_file os q w w'"
  using assms unfolding os_ok_def by blast+

lemma os_ok_set_mode:
  assumes "os_ok os ssl" and "os_set_mode os p m w = (Ok (), w')"
  shows "os_mode os p w' = m" "os_exists os p w' = os_exists os p w" "os_read os p w' = os_read os p w"
    "q \<noteq> p \<Longrightarrow> same_file os q w w'"
  using assms unfolding os_ok_def by blast+

lemma os_ok_generate: "os_ok os ssl \<Longrightarrow> sl_generate ssl n w = (r, w') \<Longrightarrow> same_file os q w w'"
  unfolding os_ok_def by blast

lemma os_ok_create_dir:
  "os_ok os ssl \<Longrightarrow> os_create_dir_all os p w = (Ok (), w') \<Longrightarrow> \<not> path_above q p \<Longrightarrow> same_file os q w w'"
  unfolding os_ok_def by blast

lemma path_above_refl [simp]: "path_above p p"
  by (simp add: path_above_def)

lemma path_above_parent:
  assumes "path_parent p = Some d"
  shows "path_above q d \<Longrightarrow> path_above q p" and "\<not> path_above p d"
proof -
  obtain a cs where p: "p = (a, cs)" by (cases p)
  have d: "cs \<noteq> []" "d = (a, butlast cs)" using assms by (auto simp: p path_parent_def split: if_splits)
  show "path_above q p" if above: "path_above q d"
  proof -
    obtain ds where "fst q = a" "butlast cs = snd q @ ds" using above unfolding path_above_def d(2) fst_conv snd_conv by blast
    moreover have "cs = butlast cs @ [last cs]" using d(1) by simp
    ultimately have "fst q = a" "cs = snd q @ ds @ [last cs]" by simp_all
    then show ?thesis unfolding path_above_def p fst_conv snd_conv by blast
  qed
  show "\<not> path_above p d"
  proof
    assume "path_above p d"
    then obtain ds where "butlast cs = cs @ ds" unfolding path_above_def p d(2) by auto
    then have "length (butlast cs) = length (cs @ ds)" by (rule arg_cong)
    then have "length cs - 1 = length cs + length ds" unfolding length_butlast length_append .
    then show False using d(1) by (cases cs) simp_all
  qed
qed

lemma ensure_parent_dir_keeps:
  assumes "os_ok os ssl" and "ensure_parent_dir os p w = (Ok (), w')" and "q = p \<or> \<not> path_above q p"
  shows "same_file os q w w'"
proof (cases "path_parent p")
  case None
  then show ?thesis using assms(2) by (simp add: ensure_parent_dir_def io_return_def)
next
  case (Some d)
  have "\<not> path_above q d" using assms(3) path_above_parent [OF Some] by blast
  moreover have "os_create_dir_all os d w = (Ok (), w') \<or> w' = w"
    using assms(2) Some by (simp add: ensure_parent_dir_def expect_eq_Ok io_return_def split: if_splits)
  ultimately show ?thesis using os_ok_create_dir [OF assms(1), of d w w' q] by (elim disjE) simp_all
qed

lemma generate_signing_key_Ok:
  assumes "os_ok os ssl" and "generate_signing_key os ssl p w = (Ok (), w')"
  shows "\<exists>rsa pem w1 w2. sl_generate ssl 2048 w1 = (Ok rsa, w2) \<and> sl_rsa_to_pem ssl rsa = Ok pem \<and>
    os_exists os p w' \<and> os_read os p w' = Ok pem \<and> os_mode os p w' = 384"
    and "\<not> path_above q p \<Longrightarrow> same_file os q w w'"
proof -
  obtain w1 rsa w2 pem w3 where run: "ensure_parent_dir os p w = (Ok (), w1)" "sl_generate ssl 2048 w1 = (Ok rsa, w2)"
      "sl_rsa_to_pem ssl rsa = Ok pem" "os_write os p pem w2 = (Ok (), w3)" "os_set_mode os p 384 w3 = (Ok (), w')"
    using assms(2) by (auto simp: generate_signing_key_def restrict_permissions_def io_simps)
  show "\<exists>rsa pem w1 w2. sl_generate ssl 2048 w1 = (Ok rsa, w2) \<and> sl_rsa_to_pem ssl rsa = Ok pem \<and>
    os_exists os p w' \<and> os_read os p w' = Ok pem \<and> os_mode os p w' = 384"
    using run os_ok_write(1,2) [OF assms(1) run(4)] os_ok_set_mode(1-3) [OF assms(1) run(5)] by auto
  assume q: "\<not> path_above q p"
  then have "q \<noteq> p" using path_above_refl by blast
  then show "same_file os q w w'"
    using q ensure_parent_dir_keeps [OF assms(1) run(1), of q] os_ok_generate [OF assms(1) run(2), of q]
      os_ok_write(3) [OF assms(1) run(4), of q] os_ok_set_mode(4) [OF assms(1) run(5), of q]
    by (blast intro: same_file_trans)
qed

lemma derive_verifying_key_Ok:
  assumes "os_ok os ssl" and "derive_verifying_key os ssl priv p w = (Ok (), w')"
  shows "\<exists>k pem. sl_private_from_pem ssl priv = Ok k \<and> sl_public_to_pem ssl k = Ok pem \<and>
    os_exists os p w' \<and> os_read os p w' = Ok pem"
    and "\<not> path_above q p \<Longrightarrow> same_file os q w w'"
proof -
  obtain w1 k pem where run: "ensure_parent_dir os p w = (Ok (), w1)" "sl_private_from_pem ssl priv = Ok k"
      "sl_public_to_pem ssl k = Ok pem" "os_write os p pem w1 = (Ok (), w')"
    using assms(2) by (auto simp: derive_verifying_key_def io_simps)
  show "\<exists>k pem. sl_private_from_pem ssl priv = Ok k \<and> sl_public_to_pem ssl k = Ok pem \<and>
    os_exists os p w' \<and> os_read os p w' = Ok pem"
    using run os_ok_write(1,2) [OF assms(1) run(4)] by blast
  assume q: "\<not> path_above q p"
  then have "q \<noteq> p" using path_above_refl by blast
  then show "same_file os q w w'"
    using q ensure_parent_dir_keeps [OF assms(1) run(1), of q] os_ok_write(3) [OF assms(1) run(4), of q]
    by (blast intro: same_file_trans)
qed

text \<open>What a call that returns has done, in each of its two halves.\<close>

lemma load_or_generate_keys_Ok:
  assumes "os_ok os ssl" and "\<not> path_above s v" and "\<not> path_above v s"
    and "load_or_generate_keys os ssl s v w = (Ok (priv, pub), w')"
  shows "os_exists os s w' \<and> os_read os s w' = Ok priv \<and> os_exists os v w' \<and> os_read os v w' = Ok pub"
    and "if os_exists os s w then os_read os s w = Ok priv
      else os_mode os s w' = 384 \<and>
        (\<exists>rsa w1 w2. sl_generate ssl 2048 w1 = (Ok rsa, w2) \<and> sl_rsa_to_pem ssl rsa = Ok priv)"
    and "if os_exists os v w then os_read os v w = Ok pub
      else \<exists>k. sl_private_from_pem ssl priv = Ok k \<and> sl_public_to_pem ssl k = Ok pub"
proof -
  obtain w1 where run: "unless_exists os s (generate_signing_key os ssl s) w = (Ok (), w1)"
      "os_read os s w1 = Ok priv" "unless_exists os v (derive_verifying_key os ssl priv v) w1 = (Ok (), w')"
      "os_read os v w' = Ok pub"
    using assms(4) by (auto simp: load_or_generate_keys_def io_bind_eq_Ok expect_eq_Ok io_return_def read_key_def)
  have s: "os_exists os s w1 \<and> same_file os v w w1 \<and>
      (if os_exists os s w then w1 = w else os_mode os s w1 = 384 \<and>
        (\<exists>rsa w1 w2. sl_generate ssl 2048 w1 = (Ok rsa, w2) \<and> sl_rsa_to_pem ssl rsa = Ok priv))"
  proof (cases "os_exists os s w")
    case True
    then show ?thesis using run(1) by (simp add: unless_exists_def)
  next
    case False
    then have gen: "generate_signing_key os ssl s w = (Ok (), w1)" using run(1) by (simp add: unless_exists_def)
    show ?thesis
      using generate_signing_key_Ok(1) [OF assms(1) gen] generate_signing_key_Ok(2) [OF assms(1) gen assms(3)] run(2) False
      by auto
  qed
  have v: "os_exists os v w' \<and> same_file os s w1 w' \<and>
      (if os_exists os v w1 then w' = w1
       else \<exists>k. sl_private_from_pem ssl priv = Ok k \<and> sl_public_to_pem ssl k = Ok pub)"
  proof (cases "os_exists os v w1")
    case True
    then show ?thesis using run(3) by (simp add: unless_exists_def)
  next
    case False
    then have der: "derive_verifying_key os ssl priv v w1 = (Ok (), w')" using run(3) by (simp add: unless_exists_def)
    show ?thesis
      using derive_verifying_key_Ok(1) [OF assms(1) der] derive_verifying_key_Ok(2) [OF assms(1) der assms(2)] run(4) False
      by auto
  qed
  show "os_exists os s w' \<and> os_read os s w' = Ok priv \<and> os_exists os v w' \<and> os_read os v w' = Ok pub"
    using s v run(2,4) by (auto simp: same_file_def)
  show "if os_exists os s w then os_read os s w = Ok priv
      else os_mode os s w' = 384 \<and>
        (\<exists>rsa w1 w2. sl_generate ssl 2048 w1 = (Ok rsa, w2) \<and> sl_rsa_to_pem ssl rsa = Ok priv)"
    using s v run(2) by (auto simp: same_file_def split: if_splits)
  show "if os_exists os v w then os_read os v w = Ok pub
      else \<exists>k. sl_private_from_pem ssl priv = Ok k \<and> sl_public_to_pem ssl k = Ok pub"
    using s v run(4) by (auto simp: same_file_def split: if_splits)
qed

section \<open>Properties\<close>

text \<open>
  After a start that had to derive the verifying key, the two keys belong together: the public key
  returned is the one OpenSSL derives from the private key returned. Both files then hold what was
  returned, a signing key that was made is readable by its owner alone, and the next start returns the
  same keys and changes nothing.
\<close>

theorem load_or_generate_keys_pair:
  assumes "os_ok os ssl" and "\<not> path_above s v" and "\<not> path_above v s" and "\<not> os_exists os v w"
    and "load_or_generate_keys os ssl s v w = (Ok (priv, pub), w')"
  shows "(\<exists>k. sl_private_from_pem ssl priv = Ok k \<and> sl_public_to_pem ssl k = Ok pub) \<and>
    os_read os s w' = Ok priv \<and> os_read os v w' = Ok pub \<and>
    (os_exists os s w \<or> os_mode os s w' = 384) \<and>
    load_or_generate_keys os ssl s v w' = (Ok (priv, pub), w')"
proof -
  note ok = load_or_generate_keys_Ok [OF assms(1-3,5)]
  have "load_or_generate_keys os ssl s v w' = (Ok (priv, pub), w')"
    using ok(1) by (simp add: load_or_generate_keys_def io_bind_eq_Ok expect_eq_Ok io_return_def read_key_def unless_exists_def)
  then show ?thesis using ok assms(4) by (simp split: if_splits)
qed

text \<open>
  C37: A verifying key that is there is never replaced: when the signing key is missing, a new one is made
  and returned together with the old public key, whatever private key that belongs to.
\<close>

theorem stale_verifying_key_kept:
  assumes "os_ok os ssl" and "\<not> path_above s v" and "\<not> path_above v s"
    and "os_exists os v w" and "os_read os v w = Ok old" and "\<not> os_exists os s w"
    and "load_or_generate_keys os ssl s v w = (Ok (priv, pub), w')"
  shows "pub = old \<and> (\<exists>rsa w1 w2. sl_generate ssl 2048 w1 = (Ok rsa, w2) \<and> sl_rsa_to_pem ssl rsa = Ok priv)"
  using load_or_generate_keys_Ok(2,3) [OF assms(1-3,7)] assms(4-6) by simp

text \<open>A file system: a map from paths to content and mode, and a counter that gives out keys.\<close>

type_synonym disk = "(path \<rightharpoonup> bytes \<times> nat) \<times> nat"

definition os_example :: "disk os" where
  "os_example =
     \<lparr>os_exists = (\<lambda>p (m, _). m p \<noteq> None),
      os_read = (\<lambda>p (m, _). case m p of None \<Rightarrow> Err ''not found'' | Some (b, _) \<Rightarrow> Ok b),
      os_mode = (\<lambda>p (m, _). case m p of None \<Rightarrow> 0 | Some (_, x) \<Rightarrow> x),
      os_write = (\<lambda>p b (m, n). (Ok (), (m(p \<mapsto> (b, case m p of None \<Rightarrow> 420 | Some (_, x) \<Rightarrow> x)), n))),
      os_create_dir_all = (\<lambda>p w. (Ok (), w)),
      os_set_mode = (\<lambda>p x (m, n). case m p of None \<Rightarrow> (Err ''not found'', (m, n)) | Some (b, _) \<Rightarrow> (Ok (), (m(p \<mapsto> (b, x)), n)))\<rparr>"

definition ssl_example :: "(nat, bytes, disk) ssl" where
  "ssl_example = \<lparr>sl_generate = (\<lambda>_ (m, n). (Ok n, (m, Suc n))), sl_rsa_to_pem = (\<lambda>n. Ok [of_nat n]),
     sl_private_from_pem = Ok, sl_public_to_pem = (\<lambda>k. Ok (0 # k))\<rparr>"

lemma os_ok_example: "os_ok os_example ssl_example"
  unfolding os_ok_def os_example_def ssl_example_def same_file_def by (auto split: option.splits)

definition signing_path :: path where "signing_path = (True, [''etc'', ''signing-key.pem''])"
definition verifying_path :: path where "verifying_path = (True, [''etc'', ''verifying-key.pem''])"

lemma paths_apart: "\<not> path_above signing_path verifying_path" "\<not> path_above verifying_path signing_path"
  by (auto simp: path_above_def signing_path_def verifying_path_def)

lemmas key_run = load_or_generate_keys_def generate_signing_key_def derive_verifying_key_def
  restrict_permissions_def ensure_parent_dir_def path_parent_def path_is_empty_def io_bind_def expect_def
  io_return_def pure_call_def unless_exists_def read_key_def os_example_def ssl_example_def
  signing_path_def verifying_path_def

lemma fresh_example:
  "load_or_generate_keys os_example ssl_example signing_path verifying_path (Map.empty, 3) =
     (Ok ([3], [0, 3]), ([signing_path \<mapsto> ([3], 384), verifying_path \<mapsto> ([0, 3], 420)], 4))"
  by (simp add: key_run)

theorem load_or_generate_keys_pair_witness:
  "load_or_generate_keys os_example ssl_example signing_path verifying_path (Map.empty, 3) =
     (Ok ([3], [0, 3]), ([signing_path \<mapsto> ([3], 384), verifying_path \<mapsto> ([0, 3], 420)], 4)) \<and>
   (\<exists>k. sl_private_from_pem ssl_example [3] = Ok k \<and> sl_public_to_pem ssl_example k = Ok [0, 3])"
proof -
  have "\<not> os_exists os_example verifying_path (Map.empty, 3)" by (simp add: os_example_def)
  from load_or_generate_keys_pair [OF os_ok_example paths_apart this fresh_example] fresh_example
  show ?thesis by blast
qed

theorem stale_verifying_key_kept_witness:
  "fst (load_or_generate_keys os_example ssl_example signing_path verifying_path
     ([verifying_path \<mapsto> ([0, 1], 420)], 3)) = Ok ([3], [0, 1])"
proof -
  let ?w = "([verifying_path \<mapsto> ([0, 1], 420)], 3) :: disk"
  have run: "load_or_generate_keys os_example ssl_example signing_path verifying_path ?w =
      (Ok ([3], [0, 1]), ([verifying_path \<mapsto> ([0, 1], 420), signing_path \<mapsto> ([3], 384)], 4))"
    by (simp add: key_run)
  have "os_exists os_example verifying_path ?w" "os_read os_example verifying_path ?w = Ok [0, 1]"
    "\<not> os_exists os_example signing_path ?w"
    by (simp_all add: os_example_def signing_path_def verifying_path_def)
  from stale_verifying_key_kept [OF os_ok_example paths_apart this run] run show ?thesis by simp
qed

end
