(* ===== verification/Shutdown.thy ===== *)
theory Shutdown
  imports Prelude
begin

text \<open>
  Starting and stopping the process: \<open>src/helper.rs\<close>, the watchers of the exit flag in \<open>src/proxy/mod.rs\<close>
  and \<open>src/relayer/tpu.rs\<close>, the slot thread of \<open>src/rpc.rs\<close>, and the joins at the end of \<open>src/main.rs\<close>.

  A polling loop takes the values it loads from the flag as a function of the round. The process is a
  state with the flag, the signals and the parts that run, and a step for every part that may stop. The
  gRPC library stops a server when its shutdown future is over and the responses that are being streamed
  have ended; whether responses of the relayer server are open is up to the validator.
\<close>

section \<open>Polling loops\<close>

definition EXIT_POLL_INTERVAL :: duration where "EXIT_POLL_INTERVAL = from_millis 100"

text \<open>\<open>wait_for_exit\<close>: the number of times it slept; None would be waiting for ever.\<close>

partial_function (option) wait_for_exit :: "(nat \<Rightarrow> bool) \<Rightarrow> nat \<Rightarrow> nat option" where
  "wait_for_exit exit n = (if \<not> exit n then wait_for_exit exit (Suc n) else Some n)"

text \<open>\<open>shutdown_watch\<close>: the value of the watch channel after the task, with the flag as it polls it.\<close>

definition shutdown_watch :: "(nat \<Rightarrow> bool) \<Rightarrow> bool option" where
  "shutdown_watch exit = map_option (\<lambda>_. True) (wait_for_exit exit 0)"

text \<open>The thread \<open>tpu-cancel-watcher\<close>: it cancels the token of the QUIC servers after its loop.\<close>

partial_function (option) tpu_cancel_watcher :: "(nat \<Rightarrow> bool) \<Rightarrow> nat \<Rightarrow> bool option" where
  "tpu_cancel_watcher exit n = (if \<not> exit n then tpu_cancel_watcher exit (Suc n) else Some True)"

lemma wait_for_exit_from: "exit (n + m) \<Longrightarrow> (\<And>k. k < m \<Longrightarrow> \<not> exit (n + k)) \<Longrightarrow> wait_for_exit exit n = Some (n + m)"
proof (induction m arbitrary: n)
  case 0
  then show ?case by (simp add: wait_for_exit.simps)
next
  case (Suc m)
  have "wait_for_exit exit (Suc n) = Some (Suc n + m)"
    using Suc.prems(1) Suc.prems(2) [of "Suc _"] by (intro Suc.IH) simp_all
  then show ?case using Suc.prems(2) [of 0] by (simp add: wait_for_exit.simps [of exit n])
qed

lemma wait_for_exit_sound:
  assumes "wait_for_exit exit n = Some m"
  shows "exit m \<and> n \<le> m \<and> (\<forall>k. n \<le> k \<longrightarrow> k < m \<longrightarrow> \<not> exit k)"
proof (rule wait_for_exit.raw_induct [OF _ assms,
      where P = "\<lambda>exit n m. exit m \<and> n \<le> m \<and> (\<forall>k. n \<le> k \<longrightarrow> k < m \<longrightarrow> \<not> exit k)"])
  fix f :: "(nat \<Rightarrow> bool) \<Rightarrow> nat \<Rightarrow> nat option" and exit n m
  assume IH: "\<And>exit n m. f exit n = Some m \<Longrightarrow> exit m \<and> n \<le> m \<and> (\<forall>k. n \<le> k \<longrightarrow> k < m \<longrightarrow> \<not> exit k)"
    and body: "(if \<not> exit n then f exit (Suc n) else Some n) = Some m"
  show "exit m \<and> n \<le> m \<and> (\<forall>k. n \<le> k \<longrightarrow> k < m \<longrightarrow> \<not> exit k)"
  proof (cases "exit n")
    case False
    then have "f exit (Suc n) = Some m" using body by simp
    from IH [OF this] have *: "exit m \<and> Suc n \<le> m \<and> (\<forall>k. Suc n \<le> k \<longrightarrow> k < m \<longrightarrow> \<not> exit k)" .
    have "\<not> exit k" if "n \<le> k" "k < m" for k
      using * False that by (cases "k = n") simp_all
    then show ?thesis using * by simp
  qed (use body in simp)
qed

text \<open>The loop returns exactly when the flag is up in some round, and in the first such round.\<close>

lemma wait_for_exit_iff: "wait_for_exit exit 0 = Some n \<longleftrightarrow> exit n \<and> (\<forall>k < n. \<not> exit k)"
proof
  assume "wait_for_exit exit 0 = Some n"
  from wait_for_exit_sound [OF this] show "exit n \<and> (\<forall>k < n. \<not> exit k)" by blast
next
  assume "exit n \<and> (\<forall>k < n. \<not> exit k)"
  then show "wait_for_exit exit 0 = Some n" using wait_for_exit_from [of exit 0 n] by simp
qed

section \<open>The panic hook\<close>

datatype hook_action = LogPanic | Callback | StoreExit | SleepFor duration | DefaultHook | ProcessExit int

definition panic_hook :: "bool \<Rightarrow> hook_action list" where
  "panic_hook has_callback =
     [LogPanic] @ (if has_callback then [Callback] else []) @
     [StoreExit, SleepFor (from_secs 5), DefaultHook, ProcessExit 1]"

section \<open>The slot thread\<close>

datatype slot_recv = Slot u64 | Timeout | Disconnected

text \<open>
  The loop over one subscription: what the exit flag is at its head, and what the receiver returns. The
  result is what goes to \<open>slot_sender\<close>.
\<close>

fun slot_loop :: "(bool \<times> slot_recv) list \<Rightarrow> u64 list" where
  "slot_loop [] = []"
| "slot_loop ((exit, r) # rs) =
     (if exit then []
      else case r of Slot n \<Rightarrow> n # slot_loop rs | Timeout \<Rightarrow> [] | Disconnected \<Rightarrow> [])"

text \<open>
  The outer loop: the exit flag at its head, the subscription or its failure, and the flag before the
  pause of a second. The second component of the result counts the pauses.
\<close>

fun slot_sender :: "(bool \<times> (bool \<times> slot_recv) list option \<times> bool) list \<Rightarrow> u64 list \<times> nat" where
  "slot_sender [] = ([], 0)"
| "slot_sender ((exit, subscribed, exit') # rounds) =
     (if exit then ([], 0)
      else (case slot_sender rounds of (sent, pauses) \<Rightarrow>
        ((case subscribed of None \<Rightarrow> [] | Some receiver \<Rightarrow> slot_loop receiver) @ sent,
         (if \<not> exit' then 1 else 0) + pauses)))"

lemma slot_loop_takeWhile:
  "map Slot (slot_loop rs) = map snd (takeWhile (\<lambda>(exit, r). \<not> exit \<and> (\<exists>n. r = Slot n)) rs)"
  by (induction rs rule: slot_loop.induct) (auto split: slot_recv.splits)

section \<open>The process\<close>

record process =
  pr_exit :: bool
  pr_signal :: bool
  pr_relayer_open :: bool
  pr_blockengine_open :: bool
  pr_watch :: bool
  pr_relayer :: bool
  pr_blockengine :: bool
  pr_proxy :: bool
  pr_rpc :: bool
  pr_threads :: bool
  pr_delay :: bool
  pr_main :: nat

definition process_start :: process where
  "process_start = \<lparr>pr_exit = False, pr_signal = False, pr_relayer_open = False, pr_blockengine_open = False,
     pr_watch = False, pr_relayer = True, pr_blockengine = True, pr_proxy = True, pr_rpc = True,
     pr_threads = True, pr_delay = True, pr_main = 0\<rparr>"

text \<open>What \<open>main\<close> waits for, in order: three tasks under \<open>block_on\<close>, then three threads.\<close>

definition joins :: "process \<Rightarrow> bool list" where
  "joins p = [pr_relayer p, pr_blockengine p, pr_proxy p, pr_rpc p, pr_threads p, pr_delay p]"

inductive process_step :: "process \<Rightarrow> process \<Rightarrow> bool" where
  shutdown_signal: "pr_signal p \<Longrightarrow> pr_relayer p \<or> pr_blockengine p \<Longrightarrow> \<not> pr_exit p \<Longrightarrow>
    process_step p (p\<lparr>pr_exit := True\<rparr>)"
| relayer_stops: "pr_relayer p \<Longrightarrow> pr_signal p \<Longrightarrow> pr_exit p \<Longrightarrow> \<not> pr_relayer_open p \<Longrightarrow>
    process_step p (p\<lparr>pr_relayer := False\<rparr>)"
| blockengine_streams_end: "pr_exit p \<Longrightarrow> pr_blockengine_open p \<Longrightarrow>
    process_step p (p\<lparr>pr_blockengine_open := False\<rparr>)"
| blockengine_stops: "pr_blockengine p \<Longrightarrow> pr_signal p \<Longrightarrow> pr_exit p \<Longrightarrow> \<not> pr_blockengine_open p \<Longrightarrow>
    process_step p (p\<lparr>pr_blockengine := False\<rparr>)"
| watch: "pr_exit p \<Longrightarrow> \<not> pr_watch p \<Longrightarrow> process_step p (p\<lparr>pr_watch := True\<rparr>)"
| proxy_stops: "pr_proxy p \<Longrightarrow> pr_watch p \<Longrightarrow> process_step p (p\<lparr>pr_proxy := False\<rparr>)"
| rpc_stops: "pr_rpc p \<Longrightarrow> pr_exit p \<Longrightarrow> process_step p (p\<lparr>pr_rpc := False\<rparr>)"
| threads_stop: "pr_threads p \<Longrightarrow> pr_exit p \<Longrightarrow> process_step p (p\<lparr>pr_threads := False\<rparr>)"
| delay_stops: "pr_delay p \<Longrightarrow> pr_exit p \<Longrightarrow> process_step p (p\<lparr>pr_delay := False\<rparr>)"
| main_joins: "pr_main p < 6 \<Longrightarrow> \<not> joins p ! pr_main p \<Longrightarrow> process_step p (p\<lparr>pr_main := Suc (pr_main p)\<rparr>)"

text \<open>What happens to the process: a signal, an error of the event loop, streams that open and close.\<close>

inductive process_env :: "process \<Rightarrow> process \<Rightarrow> bool" where
  signal_arrives: "process_env p (p\<lparr>pr_signal := True\<rparr>)"
| event_loop_fails: "pr_threads p \<Longrightarrow> process_env p (p\<lparr>pr_exit := True\<rparr>)"
| relayer_stream: "pr_relayer p \<Longrightarrow> process_env p (p\<lparr>pr_relayer_open := b\<rparr>)"
| blockengine_stream: "pr_blockengine p \<Longrightarrow> \<not> pr_exit p \<Longrightarrow> process_env p (p\<lparr>pr_blockengine_open := b\<rparr>)"

abbreviation process_reach :: "process \<Rightarrow> bool" where
  "process_reach \<equiv> reach (\<lambda>p. p = process_start) (\<lambda>p p'. process_step p p' \<or> process_env p p')"

inductive_simps process_step_simps: "process_step p p'"

text \<open>The servers outlive the flag: without a signal both run, and \<open>main\<close> waits for the first.\<close>

definition process_inv :: "process \<Rightarrow> bool" where
  "process_inv p \<longleftrightarrow>
     (\<not> pr_signal p \<longrightarrow> pr_relayer p \<and> pr_blockengine p \<and> pr_main p = 0) \<and>
     (\<not> pr_relayer p \<or> \<not> pr_blockengine p \<longrightarrow> pr_exit p) \<and> pr_main p \<le> 6"

lemma joins_0 [simp]: "joins p ! 0 = pr_relayer p"
  by (simp add: joins_def)

interpretation process: inductive_invariant "\<lambda>p. p = process_start"
  "\<lambda>p p'. process_step p p' \<or> process_env p p'" process_inv
proof unfold_locales
  show "p = process_start \<Longrightarrow> process_inv p" for p by (simp add: process_inv_def process_start_def)
next
  fix p p' assume inv: "process_inv p" and step: "process_step p p' \<or> process_env p p'"
  from step show "process_inv p'"
  proof
    assume "process_step p p'"
    then show ?thesis
    proof (cases rule: process_step.cases)
      case main_joins
      then show ?thesis using inv by (cases "pr_signal p") (auto simp: process_inv_def)
    qed (use inv in \<open>auto simp: process_inv_def\<close>)
  next
    assume "process_env p p'"
    then show ?thesis using inv by (cases rule: process_env.cases) (auto simp: process_inv_def)
  qed
qed

definition flag :: "bool \<Rightarrow> nat" where "flag b = (if b then 1 else 0)"

lemma flag_simps [simp]: "flag True = 1" "flag False = 0"
  by (simp_all add: flag_def)

lemma flag_le: "flag b \<le> 1"
  by (simp add: flag_def)

definition process_size :: "process \<Rightarrow> nat" where
  "process_size p = flag (\<not> pr_exit p) + flag (\<not> pr_watch p) + flag (pr_blockengine_open p) +
     sum_list (map flag (joins p)) + (6 - pr_main p)"

definition stopping :: "process \<Rightarrow> bool" where
  "stopping p \<longleftrightarrow> process_inv p \<and> pr_signal p \<and> \<not> pr_relayer_open p"

lemma joins_nth_False:
  assumes "pr_relayer p = False" "pr_blockengine p = False" "pr_proxy p = False" "pr_rpc p = False"
    "pr_threads p = False" "pr_delay p = False" and "i < 6"
  shows "\<not> joins p ! i"
proof -
  have "joins p = replicate 6 False" using assms by (simp add: joins_def eval_nat_numeral)
  then show ?thesis using assms(7) by simp
qed

lemma stopping_enabled:
  assumes "stopping p" and "pr_main p \<noteq> 6"
  shows "\<exists>p'. process_step p p'"
proof (rule ccontr)
  assume stuck: "\<nexists>p'. process_step p p'"
  have main: "pr_main p < 6" and inv: "process_inv p" "pr_signal p" "\<not> pr_relayer_open p"
    using assms by (auto simp: stopping_def process_inv_def)
  have exit: "pr_exit p"
    using stuck inv process_step.shutdown_signal [of p] by (auto simp: process_inv_def)
  have "\<not> pr_relayer p" using stuck inv exit process_step.relayer_stops by blast
  moreover have "\<not> pr_blockengine_open p" using stuck exit process_step.blockengine_streams_end by blast
  then have "\<not> pr_blockengine p" using stuck inv exit process_step.blockengine_stops by blast
  moreover have "pr_watch p" using stuck exit process_step.watch by blast
  then have "\<not> pr_proxy p" using stuck process_step.proxy_stops by blast
  moreover have "\<not> pr_rpc p" "\<not> pr_threads p" "\<not> pr_delay p"
    using stuck exit process_step.rpc_stops process_step.threads_stop process_step.delay_stops by blast+
  ultimately have "\<not> joins p ! pr_main p" using main by (intro joins_nth_False) simp_all
  then show False using stuck main process_step.main_joins by blast
qed

interpretation stop: progress process_step stopping "\<lambda>p. pr_main p = 6" process_size
proof unfold_locales
  fix p p' assume p: "stopping p" and step: "process_step p p'"
  have "process_inv p'" using process.inv_step p step by (auto simp: stopping_def)
  moreover have "pr_signal p' = pr_signal p \<and> pr_relayer_open p' = pr_relayer_open p"
    using step by (cases rule: process_step.cases) simp_all
  ultimately show "stopping p'" using p by (simp add: stopping_def)
  show "process_size p' < process_size p"
    using step by (cases rule: process_step.cases) (simp_all add: process_size_def joins_def)
qed (rule stopping_enabled)

section \<open>Properties\<close>



text \<open>
  C39: The exit flag alone does not end the process: in every state that is reached without a signal, also
  with the flag raised by an error of the event loop, both gRPC servers run and \<open>main\<close> has not passed its
  first join.
\<close>

theorem exit_flag_leaves_servers:
  assumes "process_reach p" and "\<not> pr_signal p"
  shows "pr_relayer p \<and> pr_blockengine p \<and> pr_main p = 0"
  using process.inv_reach [OF assms(1)] assms(2) by (simp add: process_inv_def)

theorem exit_flag_leaves_servers_witness:
  "\<exists>p. process_reach p \<and> pr_exit p \<and> \<not> pr_threads p \<and> \<not> pr_signal p \<and> pr_relayer p \<and> pr_main p = 0"
proof -
  let ?p1 = "process_start\<lparr>pr_exit := True\<rparr>" and ?p2 = "process_start\<lparr>pr_exit := True, pr_threads := False\<rparr>"
  have "process_reach ?p1"
    by (rule reach_step [OF reach_init])
       (rule refl, rule disjI2, rule process_env.event_loop_fails, simp add: process_start_def)
  moreover have "process_step ?p1 ?p2"
    using process_step.threads_stop [of ?p1] by (simp add: process_start_def)
  ultimately have r: "process_reach ?p2" by (blast intro: reach_step)
  moreover have "\<not> pr_signal ?p2" by (simp add: process_start_def)
  ultimately show ?thesis
    using exit_flag_leaves_servers [OF r] by (intro exI [of _ ?p2]) simp
qed

text \<open>An open response keeps the relayer server running, and \<open>main\<close> joins it first.\<close>

definition held_inv :: "process \<Rightarrow> bool" where
  "held_inv p \<longleftrightarrow> (pr_relayer_open p \<longrightarrow> pr_relayer p) \<and> (pr_relayer p \<longrightarrow> pr_main p = 0)"

interpretation held: inductive_invariant "\<lambda>p. p = process_start"
  "\<lambda>p p'. process_step p p' \<or> process_env p p'" held_inv
proof unfold_locales
  show "p = process_start \<Longrightarrow> held_inv p" for p by (simp add: held_inv_def process_start_def)
next
  fix p p' assume inv: "held_inv p" and step: "process_step p p' \<or> process_env p p'"
  from step show "held_inv p'"
  proof
    assume "process_step p p'"
    then show ?thesis
    proof (cases rule: process_step.cases)
      case main_joins
      then show ?thesis using inv by (cases "pr_relayer p") (auto simp: held_inv_def)
    qed (use inv in \<open>auto simp: held_inv_def\<close>)
  next
    assume "process_env p p'"
    then show ?thesis using inv by (cases rule: process_env.cases) (auto simp: held_inv_def)
  qed
qed



end
