(* ===== verification/Startup.thy ===== *)
theory Startup
  imports Cert_Pin Delay Auth_Interceptor Block_Service Staked_Nodes Key_Files Shutdown
begin

text \<open>
  Start-up: the command line and the whole of \<open>main\<close> before its joins, of \<open>src/main.rs\<close>, and the constructors it calls,
  \<open>Rpc::new\<close>, \<open>Relayer::new\<close>, \<open>Tpu::new\<close>, \<open>Forwarder::new\<close>, \<open>AuthServiceImpl::new\<close>, \<open>Blockengine::new\<close> and
  \<open>Proxy::new\<close>. A constructor returns the initial state of its component or the panic that ends the
  process; the calls into the operating system and into the libraries are functions of \<open>boot\<close> on a
  world \<open>'w\<close>. Tasks given to the runtime cannot fail and are not recorded; threads are. A channel is named by
  a value of \<open>'h\<close>, for its sending and its receiving ends alike, so the fields that hold channels say how the
  components are wired together.
\<close>

section \<open>The command line\<close>

record args =
  ar_keypair_path :: path
  ar_signing_key_pem_path :: path
  ar_verifying_key_pem_path :: path
  ar_tpu_quic_port :: u16
  ar_tpu_quic_fwd_port :: u16
  ar_relayer_bind_ip :: ip_addr
  ar_relayer_bind_port :: u16
  ar_blockengine_bind_ip :: ip_addr
  ar_blockengine_bind_port :: u16
  ar_blockengine_url :: string
  ar_proxy_bind_ip :: ip_addr
  ar_proxy_bind_port :: u16
  ar_inertia_server :: socket_addr
  ar_inertia_cert_sha256 :: bytes
  ar_rpc_server :: string
  ar_websocket_server :: string
  ar_staked_nodes_overrides :: "path option"
  ar_public_ip :: "ip_addr option"
  ar_log_path :: path

definition ip_unspecified :: ip_addr where "ip_unspecified = V4 0 0 0 0"

definition etc_file :: "string \<Rightarrow> path" where
  "etc_file f = (True, [''etc'', ''inertia-relayer'', f])"

text \<open>The arguments when only the required ones are given.\<close>

definition args_default :: "path \<Rightarrow> string \<Rightarrow> socket_addr \<Rightarrow> bytes \<Rightarrow> args" where
  "args_default keypair_path blockengine_url inertia_server inertia_cert_sha256 =
     \<lparr>ar_keypair_path = keypair_path,
      ar_signing_key_pem_path = etc_file ''signing-key.pem'',
      ar_verifying_key_pem_path = etc_file ''verifying-key.pem'',
      ar_tpu_quic_port = 11228,
      ar_tpu_quic_fwd_port = 11229,
      ar_relayer_bind_ip = ip_unspecified,
      ar_relayer_bind_port = 11225,
      ar_blockengine_bind_ip = ip_unspecified,
      ar_blockengine_bind_port = 11226,
      ar_blockengine_url = blockengine_url,
      ar_proxy_bind_ip = ip_unspecified,
      ar_proxy_bind_port = 11227,
      ar_inertia_server = inertia_server,
      ar_inertia_cert_sha256 = inertia_cert_sha256,
      ar_rpc_server = ''http://127.0.0.1:8899'',
      ar_websocket_server = ''ws://127.0.0.1:8900'',
      ar_staked_nodes_overrides = None,
      ar_public_ip = None,
      ar_log_path = etc_file ''relayer.log''\<rparr>"

section \<open>Libraries\<close>

datatype commitment = Processed

record quic_config =
  qc_max_connections_per_ipaddr_per_min :: u64
  qc_num_threads :: nat
  qc_max_streams_per_ms :: u64
  qc_max_connections_per_staked_peer :: nat
  qc_max_connections_per_unstaked_peer :: nat

record ('kp, 'f, 'so, 'vk, 'h, 'cl, 'w) boot =
  bt_debug_assertions :: bool
  bt_env_logger :: "'w \<Rightarrow> 'w"
  bt_write_logger :: "path \<Rightarrow> nat \<Rightarrow> nat \<Rightarrow> (unit, string, 'w) panicking"
  bt_build_runtime :: "(unit, string, 'w) panicking"
  bt_rpc_client :: "string \<Rightarrow> commitment \<Rightarrow> 'cl"
  bt_broadcast :: "nat \<Rightarrow> 'w \<Rightarrow> 'h \<times> 'w"
  bt_subscribe :: "'h \<Rightarrow> 'w \<Rightarrow> 'w"
  bt_bounded :: "nat \<Rightarrow> 'w \<Rightarrow> 'h \<times> 'w"
  bt_banking_channel :: "'w \<Rightarrow> 'h \<times> 'w"
  bt_read_keypair_file :: "path \<Rightarrow> ('kp, string, 'w) panicking"
  bt_open :: "path \<Rightarrow> ('f, string, 'w) panicking"
  bt_from_reader :: "'f \<Rightarrow> ((pubkey, u64) hmap, string, 'w) panicking"
  bt_parse_host_port :: "string \<Rightarrow> (socket_addr, string) result"
  bt_get_public_ip_addr :: "socket_addr \<Rightarrow> ip_addr \<Rightarrow> (ip_addr, string, 'w) panicking"
  bt_public_key_from_pem :: "bytes \<Rightarrow> ('vk, string) result"
  bt_available_parallelism :: "'w \<Rightarrow> nat option"
  bt_bind :: "ip_addr \<Rightarrow> u16 \<Rightarrow> nat \<Rightarrow> ('so, string, 'w) panicking"
  bt_quic_server :: "string \<Rightarrow> 'so \<Rightarrow> 'kp \<Rightarrow> 'h \<Rightarrow> quic_config \<Rightarrow> (unit, string, 'w) panicking"
  bt_thread_pool :: "nat \<Rightarrow> (unit, string, 'w) panicking"
  bt_sigverify_stage :: "'h \<Rightarrow> 'h \<Rightarrow> 'w \<Rightarrow> 'w"
  bt_spawn :: "string \<Rightarrow> (unit, string, 'w) panicking"

datatype startup_panic =
    Logger string
  | BuildRuntime string
  | KeypairFile string
  | OpenOverrides string
  | ReadOverrides string
  | ParseEntrypoint string
  | PublicIp string
  | KeyFiles key_panic
  | PrivatePem string
  | PublicPem string
  | QuicThreads
  | BindSocket string
  | QuicServer string
  | ThreadPool string
  | SpawnThread string
  | CertPin pin_error

type_synonym ('a, 'w) start = "('a, startup_panic, 'w) panicking"

text \<open>Calls that cannot fail.\<close>

definition io_call :: "('w \<Rightarrow> 'a \<times> 'w) \<Rightarrow> ('a, 'x, 'w) panicking" where
  "io_call f w = (case f w of (x, w') \<Rightarrow> (Ok x, w'))"

definition io_do :: "('w \<Rightarrow> 'w) \<Rightarrow> (unit, 'x, 'w) panicking" where
  "io_do f w = (Ok (), f w)"

section \<open>Before the panic hook\<close>

text \<open>The log file of a release build is kept four times, with 100 MiB each.\<close>

definition init_logging :: "('kp, 'f, 'so, 'vk, 'h, 'cl, 'w) boot \<Rightarrow> path \<Rightarrow> (unit, 'w) start" where
  "init_logging bt log_path =
     (if bt_debug_assertions bt then io_do (bt_env_logger bt)
      else expect Logger (bt_write_logger bt log_path 4 (100 * 1024 * 1024)))"

definition read_overrides :: "('kp, 'f, 'so, 'vk, 'h, 'cl, 'w) boot \<Rightarrow> path option \<Rightarrow> ((pubkey, u64) hmap, 'w) start" where
  "read_overrides bt overrides =
     (case overrides of
        None \<Rightarrow> io_return hm_empty
      | Some p \<Rightarrow>
          io_bind (expect OpenOverrides (bt_open bt p)) (\<lambda>file.
          expect ReadOverrides (bt_from_reader bt file)))"

definition choose_public_ip :: "('kp, 'f, 'so, 'vk, 'h, 'cl, 'w) boot \<Rightarrow> ip_addr option \<Rightarrow> (ip_addr, 'w) start" where
  "choose_public_ip bt public_ip =
     (case public_ip of
        Some ip \<Rightarrow> io_return ip
      | None \<Rightarrow>
          io_bind (expect ParseEntrypoint
            (pure_call (bt_parse_host_port bt ''entrypoint.mainnet-beta.solana.com:8001''))) (\<lambda>entrypoint.
          expect PublicIp (bt_get_public_ip_addr bt entrypoint ip_unspecified)))"

section \<open>The RPC client\<close>

record ('h, 'cl) rpc =
  rc_client :: 'cl
  rc_slot_sender :: 'h

definition rpc_new :: "('kp, 'f, 'so, 'vk, 'h, 'cl, 'w) boot \<Rightarrow> string \<Rightarrow> string \<Rightarrow> (('h, 'cl) rpc, 'w) start" where
  "rpc_new bt rpc_server websocket_server =
     io_bind (io_call (bt_broadcast bt 128)) (\<lambda>slot_sender.
     io_bind (expect SpawnThread (bt_spawn bt ''slot-subscribe'')) (\<lambda>_.
     io_return \<lparr>rc_client = bt_rpc_client bt rpc_server Processed, rc_slot_sender = slot_sender\<rparr>))"

section \<open>The TPU\<close>

definition TPU_QUEUE_CAPACITY :: nat where "TPU_QUEUE_CAPACITY = 100000"
definition MAX_QUIC_CONNECTIONS_PER_UNSTAKED_PEER :: nat where "MAX_QUIC_CONNECTIONS_PER_UNSTAKED_PEER = 16"
definition MAX_QUIC_CONNECTIONS_PER_STAKED_PEER :: nat where "MAX_QUIC_CONNECTIONS_PER_STAKED_PEER = 64"
definition MAX_CONNECTIONS_PER_IPADDR_PER_MIN :: u64 where "MAX_CONNECTIONS_PER_IPADDR_PER_MIN = 64"
definition QUIC_SOCKET_RECV_BUFFER_SIZE :: nat where "QUIC_SOCKET_RECV_BUFFER_SIZE = 64 * 1024 * 1024"
definition MAX_STREAMS_PER_MS :: u64 where "MAX_STREAMS_PER_MS = 4000"

definition tpu_quic_config :: "nat \<Rightarrow> quic_config" where
  "tpu_quic_config threads =
     \<lparr>qc_max_connections_per_ipaddr_per_min = MAX_CONNECTIONS_PER_IPADDR_PER_MIN,
      qc_num_threads = threads,
      qc_max_streams_per_ms = MAX_STREAMS_PER_MS,
      qc_max_connections_per_staked_peer = MAX_QUIC_CONNECTIONS_PER_STAKED_PEER,
      qc_max_connections_per_unstaked_peer = MAX_QUIC_CONNECTIONS_PER_UNSTAKED_PEER\<rparr>"

definition non_zero :: "nat \<Rightarrow> nat option" where
  "non_zero n = (if n = 0 then None else Some n)"

text \<open>
  \<open>tp_receiver\<close> is the field of the code; the others hold what the QUIC servers, the updater of the stakes and the
  verifier were given.
\<close>

record ('so, 'h) tpu =
  tp_socket :: 'so
  tp_fwd_socket :: 'so
  tp_quic_threads :: nat
  tp_sigverify_threads :: nat
  tp_overrides :: "(pubkey, u64) hmap"
  tp_quic_sender :: 'h
  tp_verify_in :: 'h
  tp_verify_out :: 'h
  tp_receiver :: 'h

definition tpu_new :: "('kp, 'f, 'so, 'vk, 'h, 'cl, 'w) boot \<Rightarrow> 'kp \<Rightarrow> (pubkey, u64) hmap \<Rightarrow> u16 \<Rightarrow> u16 \<Rightarrow>
    (('so, 'h) tpu, 'w) start" where
  "tpu_new bt keypair staked_nodes_overrides tpu_quic_port tpu_quic_fwd_port =
     io_bind (\<lambda>w. (Ok (case bt_available_parallelism bt w of Some n \<Rightarrow> n | None \<Rightarrow> 8), w)) (\<lambda>cores.
     io_bind (pure_call (case non_zero (quic_threads cores) of Some n \<Rightarrow> Ok n | None \<Rightarrow> Err QuicThreads)) (\<lambda>threads.
     io_bind (io_call (bt_bounded bt TPU_QUEUE_CAPACITY)) (\<lambda>tpu_packets.
     io_bind (expect BindSocket (bt_bind bt ip_unspecified tpu_quic_port QUIC_SOCKET_RECV_BUFFER_SIZE)) (\<lambda>sock.
     io_bind (expect BindSocket (bt_bind bt ip_unspecified tpu_quic_fwd_port QUIC_SOCKET_RECV_BUFFER_SIZE)) (\<lambda>fwd_sock.
     io_bind (expect SpawnThread (bt_spawn bt ''staked-nodes-updater'')) (\<lambda>_.
     io_bind (expect SpawnThread (bt_spawn bt ''tpu-cancel-watcher'')) (\<lambda>_.
     io_bind (expect QuicServer (bt_quic_server bt ''quic_streamer_tpu'' sock keypair tpu_packets
       (tpu_quic_config threads))) (\<lambda>_.
     io_bind (expect QuicServer (bt_quic_server bt ''quic_streamer_tpu_fwd'' fwd_sock keypair tpu_packets
       (tpu_quic_config threads))) (\<lambda>_.
     io_bind (io_call (bt_banking_channel bt)) (\<lambda>banking_packets.
     io_bind (expect ThreadPool (bt_thread_pool bt (sigverify_threads cores))) (\<lambda>_.
     io_bind (io_do (bt_sigverify_stage bt tpu_packets banking_packets)) (\<lambda>_.
     io_bind (expect SpawnThread (bt_spawn bt ''tpu'')) (\<lambda>_.
     io_return \<lparr>tp_socket = sock, tp_fwd_socket = fwd_sock, tp_quic_threads = threads,
       tp_sigverify_threads = sigverify_threads cores, tp_overrides = staked_nodes_overrides,
       tp_quic_sender = tpu_packets, tp_verify_in = tpu_packets, tp_verify_out = banking_packets,
       tp_receiver = banking_packets\<rparr>)))))))))))))"

section \<open>The relayer\<close>

definition auth_service_new :: "('t, 'sk, 'vk, 'pk, 'sg) auth_lib \<Rightarrow> ('q, 't) kpq \<Rightarrow> 'sk \<Rightarrow> 'vk \<Rightarrow>
    ('t, 'sk, 'vk, 'pk, 'sg, 'q) auth_service" where
  "auth_service_new lib queue signing_key verifying_key =
     \<lparr>sv_lib = lib, sv_queue = queue, sv_is_authorized = validator_auther_impl,
      sv_signing_key = signing_key, sv_verifying_key = verifying_key\<rparr>"

record ('s, 't, 'sk, 'vk, 'pk, 'sg, 'q, 'h, 'w) forwarder =
  fo_public_ip :: ip_addr
  fo_tpu_quic_port :: u16
  fo_tpu_fwd_quic_port :: u16
  fo_state :: "('s, 'w) fwd"
  fo_auth :: "('t, 'sk, 'vk, 'pk, 'sg, 'q) auth_service"
  fo_challenges :: 'q
  fo_interceptor :: "'vk auth_interceptor"
  fo_server_addr :: socket_addr
  fo_event_receiver :: 'h
  fo_sender :: 'h

definition forwarder_new :: "('kp, 'f, 'so, 'vk, 'h, 'cl, 'w) boot \<Rightarrow> ('t, 'sk, 'vk, 'pk, 'sg) auth_lib \<Rightarrow> ('q, 't) kpq \<Rightarrow>
    ip_addr \<Rightarrow> u16 \<Rightarrow> u16 \<Rightarrow> ip_addr \<Rightarrow> u16 \<Rightarrow> 'sk \<Rightarrow> 'vk \<Rightarrow>
    (('s, 't, 'sk, 'vk, 'pk, 'sg, 'q, 'h, 'w) forwarder, 'w) start" where
  "forwarder_new bt lib queue public_ip tpu_quic_port tpu_fwd_quic_port grpc_bind_ip relayer_bind_port
       signing_key verifying_key =
     io_bind (io_call (bt_bounded bt TPU_QUEUE_CAPACITY)) (\<lambda>delay_packets.
     io_bind (expect SpawnThread (bt_spawn bt ''forwarder-event-loop'')) (\<lambda>_ w.
     (Ok \<lparr>fo_public_ip = public_ip, fo_tpu_quic_port = tpu_quic_port,
          fo_tpu_fwd_quic_port = tpu_fwd_quic_port, fo_state = fwd_init w,
          fo_auth = auth_service_new lib queue signing_key verifying_key,
          fo_challenges = kq_new queue,
          fo_interceptor = auth_interceptor_new verifying_key Rs256,
          fo_server_addr = (grpc_bind_ip, relayer_bind_port),
          fo_event_receiver = delay_packets, fo_sender = delay_packets\<rparr>, w)))"

record ('so, 's, 't, 'sk, 'vk, 'pk, 'sg, 'q, 'h, 'w) relayer =
  rl_tpu :: "('so, 'h) tpu"
  rl_forwarder :: "('s, 't, 'sk, 'vk, 'pk, 'sg, 'q, 'h, 'w) forwarder"

definition tpu_receiver :: "('so, 's, 't, 'sk, 'vk, 'pk, 'sg, 'q, 'h, 'w) relayer \<Rightarrow> 'h" where
  "tpu_receiver rl = tp_receiver (rl_tpu rl)"

definition forwarder_sender :: "('so, 's, 't, 'sk, 'vk, 'pk, 'sg, 'q, 'h, 'w) relayer \<Rightarrow> 'h" where
  "forwarder_sender rl = fo_sender (rl_forwarder rl)"

definition relayer_new :: "('kp, 'f, 'so, 'vk, 'h, 'cl, 'w) boot \<Rightarrow> 'w os \<Rightarrow> ('r, 'sk, 'w) ssl \<Rightarrow>
    ('t, 'sk, 'vk, 'pk, 'sg) auth_lib \<Rightarrow> ('q, 't) kpq \<Rightarrow> 'kp \<Rightarrow> ip_addr \<Rightarrow> (pubkey, u64) hmap \<Rightarrow> u16 \<Rightarrow> u16 \<Rightarrow>
    ip_addr \<Rightarrow> u16 \<Rightarrow> path \<Rightarrow> path \<Rightarrow> (('so, 's, 't, 'sk, 'vk, 'pk, 'sg, 'q, 'h, 'w) relayer, 'w) start" where
  "relayer_new bt os ssl lib queue keypair public_ip staked_nodes_overrides tpu_quic_port tpu_quic_fwd_port
       grpc_bind_ip relayer_bind_port signing_key_pem_path verifying_key_pem_path =
     io_bind (expect KeyFiles (load_or_generate_keys os ssl signing_key_pem_path verifying_key_pem_path))
       (\<lambda>(private_key, public_key).
     io_bind (expect PrivatePem (pure_call (sl_private_from_pem ssl private_key))) (\<lambda>signing_key.
     io_bind (expect PublicPem (pure_call (bt_public_key_from_pem bt public_key))) (\<lambda>verifying_key.
     io_bind (tpu_new bt keypair staked_nodes_overrides tpu_quic_port tpu_quic_fwd_port) (\<lambda>tpu.
     io_bind (forwarder_new bt lib queue public_ip tpu_quic_port tpu_quic_fwd_port grpc_bind_ip
       relayer_bind_port signing_key verifying_key) (\<lambda>forwarder.
     io_bind (expect SpawnThread (bt_spawn bt ''relayer'')) (\<lambda>_.
     io_return \<lparr>rl_tpu = tpu, rl_forwarder = forwarder\<rparr>))))))"

section \<open>The block engine and the proxy\<close>

text \<open>The fields of the code are the four channels; \<open>be_service\<close> is what the gRPC server serves at \<open>be_server_addr\<close>.\<close>

record ('c, 'a, 'h) blockengine =
  be_packet_from_proxy :: 'h
  be_packet_from_blockengine :: 'h
  be_bundle_from_proxy :: 'h
  be_bundle_from_blockengine :: 'h
  be_service :: "('c, 'a, 'h) blockengine_service"
  be_server_addr :: socket_addr

definition blockengine_new :: "('kp, 'f, 'so, 'vk, 'h, 'cl, 'w) boot \<Rightarrow> string \<Rightarrow> ip_addr \<Rightarrow> u16 \<Rightarrow>
    (('c, 'a, 'h) blockengine, 'w) start" where
  "blockengine_new bt block_engine_url relayer_bind_ip blockengine_bind_port =
     io_bind (io_call (bt_broadcast bt BLOCKENGINE_CHANNEL_LIMIT)) (\<lambda>bundle_from_proxy.
     io_bind (io_call (bt_broadcast bt BLOCKENGINE_CHANNEL_LIMIT)) (\<lambda>packet_from_blockengine.
     io_bind (io_call (bt_broadcast bt BLOCKENGINE_CHANNEL_LIMIT)) (\<lambda>packet_from_proxy.
     io_bind (io_call (bt_broadcast bt BLOCKENGINE_CHANNEL_LIMIT)) (\<lambda>bundle_from_blockengine.
     io_return
       \<lparr>be_packet_from_proxy = packet_from_proxy, be_packet_from_blockengine = packet_from_blockengine,
        be_bundle_from_proxy = bundle_from_proxy, be_bundle_from_blockengine = bundle_from_blockengine,
        be_service = blockengine_service_new block_engine_url
          (local_blockengine_url relayer_bind_ip blockengine_bind_port)
          packet_from_proxy packet_from_blockengine bundle_from_proxy bundle_from_blockengine,
        be_server_addr = (relayer_bind_ip, blockengine_bind_port)\<rparr>))))"

text \<open>The mirror, the delay and the channels that the tasks of the proxy are given.\<close>

record ('d, 'h) proxy =
  px_mirror :: "'d mirror"
  px_delay :: duration
  px_tpu_receiver :: 'h
  px_forwarder_sender :: 'h
  px_be_packet_in :: 'h
  px_be_packet_out :: 'h
  px_be_bundle_in :: 'h
  px_be_bundle_mirror_in :: 'h
  px_bundle_out :: 'h

definition proxy_new :: "('kp, 'f, 'so, 'vk, 'h, 'cl, 'w) boot \<Rightarrow> ('so, 's, 't, 'sk, 'vk, 'pk, 'sg, 'q, 'h, 'w) relayer \<Rightarrow>
    ('c, 'a, 'h) blockengine \<Rightarrow> ip_addr \<Rightarrow> u16 \<Rightarrow> socket_addr \<Rightarrow> bytes \<Rightarrow> (('d, 'h) proxy, 'w) start" where
  "proxy_new bt relayer blockengine proxy_bind_ip proxy_bind_port inertia_server inertia_cert_sha256 =
     io_bind (expect CertPin (pure_call (parse_cert_pin inertia_cert_sha256))) (\<lambda>cert_pin.
     io_bind (io_do (bt_subscribe bt (be_packet_from_blockengine blockengine))) (\<lambda>_.
     io_bind (io_do (bt_subscribe bt (be_bundle_from_blockengine blockengine))) (\<lambda>_.
     io_bind (io_do (bt_subscribe bt (be_bundle_from_blockengine blockengine))) (\<lambda>_.
     io_bind (expect SpawnThread (bt_spawn bt ''proxy-relayer-delay'')) (\<lambda>_.
     io_return
       \<lparr>px_mirror = mirror_new (proxy_bind_ip, proxy_bind_port) inertia_server cert_pin, px_delay = PACKET_DELAY,
        px_tpu_receiver = tpu_receiver relayer, px_forwarder_sender = forwarder_sender relayer,
        px_be_packet_in = be_packet_from_blockengine blockengine,
        px_be_packet_out = be_packet_from_proxy blockengine,
        px_be_bundle_in = be_bundle_from_blockengine blockengine,
        px_be_bundle_mirror_in = be_bundle_from_blockengine blockengine,
        px_bundle_out = be_bundle_from_proxy blockengine\<rparr>)))))"

section \<open>The main function\<close>

record ('kp, 'so, 's, 't, 'sk, 'vk, 'pk, 'sg, 'q, 'c, 'a, 'd, 'h, 'cl, 'w) sys =
  sy_keypair :: 'kp
  sy_public_ip :: ip_addr
  sy_overrides :: "(pubkey, u64) hmap"
  sy_rpc :: "('h, 'cl) rpc"
  sy_relayer :: "('so, 's, 't, 'sk, 'vk, 'pk, 'sg, 'q, 'h, 'w) relayer"
  sy_blockengine :: "('c, 'a, 'h) blockengine"
  sy_proxy :: "('d, 'h) proxy"

definition main_config :: "('kp, 'f, 'so, 'vk, 'h, 'cl, 'w) boot \<Rightarrow> args \<Rightarrow> ('kp \<times> (pubkey, u64) hmap \<times> ip_addr, 'w) start" where
  "main_config bt args =
     io_bind (init_logging bt (ar_log_path args)) (\<lambda>_.
     io_bind (expect KeypairFile (bt_read_keypair_file bt (ar_keypair_path args))) (\<lambda>keypair.
     io_bind (read_overrides bt (ar_staked_nodes_overrides args)) (\<lambda>overrides.
     io_bind (choose_public_ip bt (ar_public_ip args)) (\<lambda>public_ip.
     io_return (keypair, overrides, public_ip)))))"

definition main_services where
  "main_services bt os ssl lib queue args keypair overrides public_ip =
     io_bind (expect BuildRuntime (bt_build_runtime bt)) (\<lambda>_.
     io_bind (rpc_new bt (ar_rpc_server args) (ar_websocket_server args)) (\<lambda>rpc.
     io_bind (relayer_new bt os ssl lib queue keypair public_ip overrides (ar_tpu_quic_port args)
       (ar_tpu_quic_fwd_port args) (ar_relayer_bind_ip args) (ar_relayer_bind_port args)
       (ar_signing_key_pem_path args) (ar_verifying_key_pem_path args)) (\<lambda>relayer.
     io_bind (blockengine_new bt (ar_blockengine_url args) (ar_blockengine_bind_ip args)
       (ar_blockengine_bind_port args)) (\<lambda>blockengine.
     io_bind (proxy_new bt relayer blockengine (ar_proxy_bind_ip args) (ar_proxy_bind_port args)
       (ar_inertia_server args) (ar_inertia_cert_sha256 args)) (\<lambda>proxy.
     io_return \<lparr>sy_keypair = keypair, sy_public_ip = public_ip, sy_overrides = overrides, sy_rpc = rpc,
       sy_relayer = relayer, sy_blockengine = blockengine, sy_proxy = proxy\<rparr>)))))"

text \<open>
  A panic before \<open>graceful_panic\<close> ends the process with the code of the default handler, 101; a later one
  runs the hook, which ends it with the code of its \<open>ProcessExit\<close>.
\<close>

definition main_start where
  "main_start bt os ssl lib queue args =
     io_bind (expect (Pair False) (main_config bt args)) (\<lambda>(keypair, overrides, public_ip).
     expect (Pair True) (main_services bt os ssl lib queue args keypair overrides public_ip))"

definition exit_code :: "bool \<times> startup_panic \<Rightarrow> int" where
  "exit_code p = (if fst p then (case last (panic_hook False) of ProcessExit n \<Rightarrow> n | _ \<Rightarrow> 101) else 101)"

section \<open>Lemmas\<close>

lemma quic_threads_non_zero [simp]: "non_zero (quic_threads cores) = Some (quic_threads cores)"
  by (simp add: non_zero_def quic_threads_def)

lemma thread_bounds [simp]: "2 \<le> quic_threads cores" "2 \<le> sigverify_threads cores"
  by (simp_all add: quic_threads_def sigverify_threads_def)

lemma io_call_eq_Ok: "io_call f w = (Ok x, w') \<longleftrightarrow> f w = (x, w')"
  by (simp add: io_call_def split: prod.split)

lemmas start_simps = io_bind_eq_Ok expect_eq_Ok io_call_eq_Ok io_do_def io_return_def pure_call_def

lemma tpu_new_Ok:
  assumes "tpu_new bt keypair overrides port fwd_port w = (Ok tpu, w')"
  obtains w1 w2 w3 where
    "bt_bind bt ip_unspecified port QUIC_SOCKET_RECV_BUFFER_SIZE w1 = (Ok (tp_socket tpu), w2)"
    "bt_bind bt ip_unspecified fwd_port QUIC_SOCKET_RECV_BUFFER_SIZE w2 = (Ok (tp_fwd_socket tpu), w3)"
    "2 \<le> tp_quic_threads tpu" "2 \<le> tp_sigverify_threads tpu" "tp_overrides tpu = overrides"
    "tp_quic_sender tpu = tp_verify_in tpu" "tp_verify_out tpu = tp_receiver tpu"
  using assms by (auto simp: tpu_new_def start_simps)

lemma forwarder_new_Ok:
  assumes "forwarder_new bt lib queue ip port fwd_port bind_ip bind_port sk vk w = (Ok fo, w')"
  shows "\<exists>ch. fo = \<lparr>fo_public_ip = ip, fo_tpu_quic_port = port, fo_tpu_fwd_quic_port = fwd_port,
    fo_state = fwd_init w', fo_auth = auth_service_new lib queue sk vk, fo_challenges = kq_new queue,
    fo_interceptor = auth_interceptor_new vk Rs256, fo_server_addr = (bind_ip, bind_port),
    fo_event_receiver = ch, fo_sender = ch\<rparr>"
  using assms by (auto simp: forwarder_new_def start_simps)

lemma relayer_new_Ok:
  assumes "relayer_new bt os ssl lib queue keypair ip overrides port fwd_port bind_ip bind_port s v w = (Ok rl, w')"
  obtains priv pub w1 sk vk w2 w3 where
    "load_or_generate_keys os ssl s v w = (Ok (priv, pub), w1)"
    "sl_private_from_pem ssl priv = Ok sk" "bt_public_key_from_pem bt pub = Ok vk"
    "tpu_new bt keypair overrides port fwd_port w1 = (Ok (rl_tpu rl), w2)"
    "forwarder_new bt lib queue ip port fwd_port bind_ip bind_port sk vk w2 = (Ok (rl_forwarder rl), w3)"
  using assms by (auto simp: relayer_new_def start_simps)

lemma proxy_new_Ok:
  assumes "proxy_new bt rl be ip port server pin w = (Ok px, w')"
  shows "\<exists>cert_pin. parse_cert_pin pin = Ok cert_pin \<and>
    px = \<lparr>px_mirror = mirror_new (ip, port) server cert_pin, px_delay = PACKET_DELAY,
      px_tpu_receiver = tpu_receiver rl, px_forwarder_sender = forwarder_sender rl,
      px_be_packet_in = be_packet_from_blockengine be, px_be_packet_out = be_packet_from_proxy be,
      px_be_bundle_in = be_bundle_from_blockengine be, px_be_bundle_mirror_in = be_bundle_from_blockengine be,
      px_bundle_out = be_bundle_from_proxy be\<rparr>"
  using assms by (auto simp: proxy_new_def start_simps)

lemma main_services_Ok:
  assumes "main_services bt os ssl lib queue args keypair overrides ip w = (Ok sys, w')"
  obtains w1 w2 w3 w4 where
    "relayer_new bt os ssl lib queue keypair ip overrides (ar_tpu_quic_port args) (ar_tpu_quic_fwd_port args)
       (ar_relayer_bind_ip args) (ar_relayer_bind_port args) (ar_signing_key_pem_path args)
       (ar_verifying_key_pem_path args) w1 = (Ok (sy_relayer sys), w2)"
    "blockengine_new bt (ar_blockengine_url args) (ar_blockengine_bind_ip args) (ar_blockengine_bind_port args) w2 =
       (Ok (sy_blockengine sys), w3)"
    "proxy_new bt (sy_relayer sys) (sy_blockengine sys) (ar_proxy_bind_ip args) (ar_proxy_bind_port args)
       (ar_inertia_server args) (ar_inertia_cert_sha256 args) w3 = (Ok (sy_proxy sys), w4)"
    "sy_public_ip sys = ip" "sy_overrides sys = overrides"
  using assms by (auto simp: main_services_def start_simps)

lemma main_start_Ok:
  assumes "main_start bt os ssl lib queue args w = (Ok sys, w')"
  obtains keypair overrides ip w1 where "main_config bt args w = (Ok (keypair, overrides, ip), w1)"
    and "main_services bt os ssl lib queue args keypair overrides ip w1 = (Ok sys, w')"
  using assms by (auto simp: main_start_def io_bind_eq_Ok expect_eq_Ok)

lemma main_config_public_ip:
  assumes "main_config bt args w = (Ok (keypair, overrides, ip), w')" and "ar_public_ip args = Some ip'"
  shows "ip = ip'"
  using assms by (auto simp: main_config_def choose_public_ip_def start_simps)

section \<open>Properties\<close>


text \<open>
  Libraries for the witnesses: every call succeeds, the process finds no key files, and all keys are the
  one value of \<open>unit\<close>.
\<close>

definition ssl_unit :: "(nat, unit, disk) ssl" where
  "ssl_unit = \<lparr>sl_generate = (\<lambda>_ (m, n). (Ok n, (m, Suc n))), sl_rsa_to_pem = (\<lambda>n. Ok [of_nat n]),
     sl_private_from_pem = (\<lambda>_. Ok ()), sl_public_to_pem = (\<lambda>_. Ok [0])\<rparr>"

definition boot_example :: "(unit, unit, u16, unit, nat, unit, disk) boot" where
  "boot_example =
     \<lparr>bt_debug_assertions = False, bt_env_logger = (\<lambda>w. w), bt_write_logger = (\<lambda>_ _ _ w. (Ok (), w)),
      bt_build_runtime = (\<lambda>w. (Ok (), w)), bt_rpc_client = (\<lambda>_ _. ()),
      bt_broadcast = (\<lambda>_ (m, n). (n, (m, Suc n))), bt_subscribe = (\<lambda>_ w. w),
      bt_bounded = (\<lambda>_ (m, n). (n, (m, Suc n))), bt_banking_channel = (\<lambda>(m, n). (n, (m, Suc n))),
      bt_read_keypair_file = (\<lambda>_ w. (Ok (), w)), bt_open = (\<lambda>_ w. (Ok (), w)),
      bt_from_reader = (\<lambda>_ w. (Ok [], w)), bt_parse_host_port = (\<lambda>_. Ok (V4 1 2 3 4, 8001)),
      bt_get_public_ip_addr = (\<lambda>_ _ w. (Ok (V4 5 6 7 8), w)), bt_public_key_from_pem = (\<lambda>_. Ok ()),
      bt_available_parallelism = (\<lambda>_. Some 64), bt_bind = (\<lambda>_ port _ w. (Ok port, w)),
      bt_quic_server = (\<lambda>_ _ _ _ _ w. (Ok (), w)), bt_thread_pool = (\<lambda>_ w. (Ok (), w)),
      bt_sigverify_stage = (\<lambda>_ _ w. w), bt_spawn = (\<lambda>_ w. (Ok (), w))\<rparr>"

type_synonym relayer_ex =
  "(u16, nat, nat, unit, unit, bytes, bytes, (ip_addr \<times> nat auth_challenge) list, nat, disk) relayer"
type_synonym sys_ex =
  "(unit, u16, nat, nat, unit, unit, bytes, bytes, (ip_addr \<times> nat auth_challenge) list,
     unit, unit, unit, nat, unit, disk) sys"

definition args_example :: args where
  "args_example = args_default (etc_file ''id.json'') ''https://mainnet.block-engine.jito.wtf''
     (V4 9 9 9 9, 4433) (replicate 64 48)"

definition chan_disk :: "(nat, disk) chan" where
  "chan_disk = \<lparr>ch_new = (\<lambda>_ w. (0, w)), ch_try_send = (\<lambda>_ _ w. (TsOk, w)),
     ch_timestamp = (\<lambda>w. (\<lparr>ts_seconds = 7, ts_nanos = 0\<rparr>, w))\<rparr>"

lemma pin_example: "parse_cert_pin (replicate 64 48) = Ok (replicate 32 0)"
  by code_simp

definition sys_example where
  "sys_example = main_start boot_example os_example ssl_unit lib_example kpq_example args_example (Map.empty, 3)"

lemmas start_run = io_call_def io_do_def init_logging_def rpc_new_def blockengine_new_def main_start_def main_config_def main_services_def relayer_new_def proxy_new_def
  forwarder_new_def tpu_new_def read_overrides_def choose_public_ip_def key_run ssl_unit_def

lemma sys_example_Ok: "\<exists>sys w. sys_example = (Ok sys, w)"
  by (simp add: sys_example_def start_run boot_example_def args_example_def args_default_def etc_file_def
      pin_example)


section \<open>The wiring\<close>

text \<open>What tokio promises of \<open>broadcast::channel\<close>: a channel that did not exist before.\<close>

definition fresh_channels :: "('kp, 'f, 'so, 'vk, 'h, 'cl, 'w) boot \<Rightarrow> bool" where
  "fresh_channels bt \<longleftrightarrow>
     (\<exists>known. \<forall>n w h w'. bt_broadcast bt n w = (h, w') \<longrightarrow> h \<notin> known w \<and> insert h (known w) \<subseteq> known w')"

lemma blockengine_new_Ok:
  assumes "fresh_channels bt" and "blockengine_new bt url ip port w = (Ok be, w')"
  shows "distinct [be_packet_from_proxy be, be_packet_from_blockengine be, be_bundle_from_proxy be, be_bundle_from_blockengine be]"
    and "be_service be = blockengine_service_new url (local_blockengine_url ip port) (be_packet_from_proxy be)
      (be_packet_from_blockengine be) (be_bundle_from_proxy be) (be_bundle_from_blockengine be)"
proof -
  let ?new = "bt_broadcast bt BLOCKENGINE_CHANNEL_LIMIT"
  obtain w1 w2 w3 where new: "?new w = (be_bundle_from_proxy be, w1)" "?new w1 = (be_packet_from_blockengine be, w2)"
    "?new w2 = (be_packet_from_proxy be, w3)" "?new w3 = (be_bundle_from_blockengine be, w')"
    and "be_service be = blockengine_service_new url (local_blockengine_url ip port) (be_packet_from_proxy be)
      (be_packet_from_blockengine be) (be_bundle_from_proxy be) (be_bundle_from_blockengine be)"
    using assms(2) by (auto simp: blockengine_new_def start_simps)
  then show "be_service be = blockengine_service_new url (local_blockengine_url ip port) (be_packet_from_proxy be)
      (be_packet_from_blockengine be) (be_bundle_from_proxy be) (be_bundle_from_blockengine be)" by simp
  obtain known where fresh: "\<And>n w h w'. bt_broadcast bt n w = (h, w') \<Longrightarrow> h \<notin> known w \<and> insert h (known w) \<subseteq> known w'"
    using assms(1) unfolding fresh_channels_def by blast
  show "distinct [be_packet_from_proxy be, be_packet_from_blockengine be, be_bundle_from_proxy be, be_bundle_from_blockengine be]"
    using new [THEN fresh] by auto
qed

text \<open>
  C5: nothing of the block engine reaches a validator past the proxy. After a start, and after any requests to the
  block engine service, a stream that is served to a validator reads the channel that the proxy's delay task
  writes, and the upstream of that validator is pumped into the channel that the delay task reads: these are two
  channels, and those of packets and of bundles are different, so every response passes the delay and the filter
  on its way. The bundles go to the mirror from the same channel. Likewise both QUIC servers feed the signature
  verifier, the delay thread reads what the verifier puts out, and writes what the forwarder reads.
\<close>

theorem streams_pass_proxy:
  assumes "fresh_channels bt" and "main_start bt os ssl lib queue args w = (Ok sys, w')"
    and "service_step\<^sup>*\<^sup>* (be_service (sy_blockengine sys)) bs"
  shows "let px = sy_proxy sys; tpu = rl_tpu (sy_relayer sys); fo = rl_forwarder (sy_relayer sys)
    in distinct [px_be_packet_in px, px_be_packet_out px, px_be_bundle_in px, px_bundle_out px] \<and>
       (\<forall>str bs' w2. be_subscribe_packets up mk env sub call peer req (bs, v) = (Ok str, bs', w2) \<longrightarrow>
          sd_from_proxy str = px_be_packet_out px \<and> sd_blockengine_tx str = px_be_packet_in px) \<and>
       (\<forall>str bs' w2. be_subscribe_bundles up mk env sub call' peer req' (bs, v) = (Ok str, bs', w2) \<longrightarrow>
          sd_from_proxy str = px_bundle_out px \<and> sd_blockengine_tx str = px_be_bundle_in px) \<and>
       px_be_bundle_mirror_in px = px_be_bundle_in px \<and>
       tp_quic_sender tpu = tp_verify_in tpu \<and> tp_verify_out tpu = px_tpu_receiver px \<and>
       px_forwarder_sender px = fo_event_receiver fo"
proof -
  obtain keypair overrides ip w1 where
    "main_services bt os ssl lib queue args keypair overrides ip w1 = (Ok sys, w')"
    using assms(2) by (rule main_start_Ok)
  then obtain w2 w3 w4 w5 where
    rl: "relayer_new bt os ssl lib queue keypair ip overrides (ar_tpu_quic_port args) (ar_tpu_quic_fwd_port args)
       (ar_relayer_bind_ip args) (ar_relayer_bind_port args) (ar_signing_key_pem_path args)
       (ar_verifying_key_pem_path args) w2 = (Ok (sy_relayer sys), w3)" and
    be: "blockengine_new bt (ar_blockengine_url args) (ar_blockengine_bind_ip args) (ar_blockengine_bind_port args) w3 =
       (Ok (sy_blockengine sys), w4)" and
    px: "proxy_new bt (sy_relayer sys) (sy_blockengine sys) (ar_proxy_bind_ip args) (ar_proxy_bind_port args)
       (ar_inertia_server args) (ar_inertia_cert_sha256 args) w4 = (Ok (sy_proxy sys), w5)"
    by (rule main_services_Ok)
  from rl obtain priv pub w6 sk vk w7 w8 where
    tpu: "tpu_new bt keypair overrides (ar_tpu_quic_port args) (ar_tpu_quic_fwd_port args) w6 =
      (Ok (rl_tpu (sy_relayer sys)), w7)" and
    fo: "forwarder_new bt lib queue ip (ar_tpu_quic_port args) (ar_tpu_quic_fwd_port args) (ar_relayer_bind_ip args)
      (ar_relayer_bind_port args) sk vk w7 = (Ok (rl_forwarder (sy_relayer sys)), w8)"
    by (rule relayer_new_Ok)
  have "tp_quic_sender (rl_tpu (sy_relayer sys)) = tp_verify_in (rl_tpu (sy_relayer sys))"
    "tp_verify_out (rl_tpu (sy_relayer sys)) = tp_receiver (rl_tpu (sy_relayer sys))"
    by (rule tpu_new_Ok [OF tpu], simp)+
  moreover have "fo_sender (rl_forwarder (sy_relayer sys)) = fo_event_receiver (rl_forwarder (sy_relayer sys))"
    using forwarder_new_Ok [OF fo] by auto
  moreover have "bs_config bs = bs_config (be_service (sy_blockengine sys))"
    using assms(3) by (rule service_steps_config)
  moreover note blockengine_new_Ok [OF assms(1) be]
  ultimately show ?thesis
    using proxy_new_Ok [OF px]
    by (auto simp: Let_def bs_config_def blockengine_service_new_def tpu_receiver_def forwarder_sender_def
        serve_proxy_stream_def dest!: be_subscribe_packets_Ok be_subscribe_bundles_Ok)
qed

lemma fresh_channels_example: "fresh_channels boot_example"
  unfolding fresh_channels_def by (rule exI [of _ "\<lambda>(m, n). {..<n}"]) (auto simp: boot_example_def)

theorem streams_pass_proxy_witness:
  "\<exists>(sys :: sys_ex) w str bs' w2.
     main_start boot_example os_example ssl_unit lib_example kpq_example args_example (Map.empty, 3) = (Ok sys, w) \<and>
     be_subscribe_packets upstream_example (\<lambda>_. ()) id (\<lambda>_ n. n) (\<lambda>_ req n. (Ok req, n)) None CHR ''x''
       (be_service (sy_blockengine sys), 7) = (Ok str, bs', w2) \<and>
     sd_from_proxy str = px_be_packet_out (sy_proxy sys) \<and> sd_from_proxy str \<noteq> sd_blockengine_tx str"
proof -
  obtain sys :: sys_ex and w where ok: "main_start boot_example os_example ssl_unit lib_example kpq_example args_example
      (Map.empty, 3) = (Ok sys, w)"
    using sys_example_Ok unfolding sys_example_def by blast
  obtain str bs' w2 where str: "be_subscribe_packets upstream_example (\<lambda>_. ()) id (\<lambda>_ n. n) (\<lambda>_ req n. (Ok req, n))
      None CHR ''x'' (be_service (sy_blockengine sys), 7) = (Ok str, bs', w2)"
    by (simp add: be_subscribe_packets_def subscribe_upstream_def get_block_engine_client_def get_pooled_client_def
        get_client_example Let_def)
  have "sd_from_proxy str = px_be_packet_out (sy_proxy sys)" "sd_from_proxy str \<noteq> sd_blockengine_tx str"
    using streams_pass_proxy [OF fresh_channels_example ok rtranclp.rtrancl_refl, where up = upstream_example
        and mk = "\<lambda>_. ()" and env = id and sub = "\<lambda>_ n. n" and call = "\<lambda>_ req n. (Ok req, n)" and peer = None
        and req = "CHR ''x''" and v = 7 and call' = "\<lambda>_ req n. (Ok req, n)" and req' = "CHR ''x''"] str
    unfolding Let_def by auto
  with ok str show ?thesis by blast
qed

text \<open>
  What OpenSSL and the token crate promise together: tokens signed with a private key verify with the
  public key that was derived from it, written as PEM and read back.
\<close>

definition pem_pair_ok :: "('r, 'sk, 'w) ssl \<Rightarrow> ('kp, 'f, 'so, 'vk, 'h, 'cl, 'w) boot \<Rightarrow>
    ('t, 'sk, 'vk, 'pk, 'sg) auth_lib \<Rightarrow> bool" where
  "pem_pair_ok ssl bt lib \<longleftrightarrow>
     (\<forall>k pub vk. sl_public_to_pem ssl k = Ok pub \<longrightarrow> bt_public_key_from_pem bt pub = Ok vk \<longrightarrow> jwt_ok lib k vk)"

text \<open>
  C12: A start that finds no verifying key file sets up an authentication service whose own tokens verify,
  whether or not the signing key was there before: the service meets what the proofs about
  authentication ask of it, and the interceptor in front of the relayer verifies with the same key.
\<close>

theorem fresh_start_service_ok:
  assumes "os_ok os ssl" and "pem_pair_ok ssl bt lib" and "kpq_ok queue" and "pubkey_ok lib"
    and "\<not> path_above s v" and "\<not> path_above v s" and "\<not> os_exists os v w"
    and "relayer_new bt os ssl lib queue keypair ip overrides port fwd_port bind_ip bind_port s v w = (Ok rl, w')"
  shows "service_ok (fo_auth (rl_forwarder rl)) \<and>
    fo_interceptor (rl_forwarder rl) = auth_interceptor_new (sv_verifying_key (fo_auth (rl_forwarder rl))) Rs256"
proof -
  obtain priv pub w1 sk vk w2 w3 where
    keys: "load_or_generate_keys os ssl s v w = (Ok (priv, pub), w1)" and
    sk: "sl_private_from_pem ssl priv = Ok sk" and vk: "bt_public_key_from_pem bt pub = Ok vk" and
    fo: "forwarder_new bt lib queue ip port fwd_port bind_ip bind_port sk vk w2 = (Ok (rl_forwarder rl), w3)"
    using assms(8) by (rule relayer_new_Ok)
  have "sl_public_to_pem ssl sk = Ok pub"
    using load_or_generate_keys_Ok(3) [OF assms(1,5,6) keys] assms(7) sk by simp
  then have "jwt_ok lib sk vk" using assms(2) vk unfolding pem_pair_ok_def by blast
  then show ?thesis
    using assms(3,4) forwarder_new_Ok [OF fo] by (auto simp: service_ok_def auth_service_new_def)
qed

theorem fresh_start_service_ok_witness:
  "\<exists>(rl :: relayer_ex) w. relayer_new boot_example os_example ssl_unit lib_example kpq_example () (V4 5 6 7 8) [] 11228 11229
       ip_unspecified 11225 signing_path verifying_path (Map.empty, 3) = (Ok rl, w) \<and>
     service_ok (fo_auth (rl_forwarder rl))"
proof -
  have os: "os_ok os_example ssl_unit"
    using os_ok_example by (simp add: os_ok_def ssl_unit_def ssl_example_def)
  have pem: "pem_pair_ok ssl_unit boot_example lib_example"
    using lib_example_ok(1) by (simp add: pem_pair_ok_def)
  have new: "\<not> os_exists os_example verifying_path (Map.empty, 3)" by (simp add: os_example_def)
  obtain rl :: relayer_ex and w where run: "relayer_new boot_example os_example ssl_unit lib_example kpq_example () (V4 5 6 7 8)
      [] 11228 11229 ip_unspecified 11225 signing_path verifying_path (Map.empty, 3) = (Ok rl, w)"
    by (simp add: start_run boot_example_def)
  show ?thesis
    using run fresh_start_service_ok [OF os pem kpq_ok_example lib_example_ok(2) paths_apart new run] by blast
qed

text \<open>
  A fingerprint that does not parse is found out last: by then the slot thread, the TPU, the relayer and
  both gRPC servers run, and the panic of the main thread goes through the hook, which ends the process
  with code 1.
\<close>

theorem main_start_bad_pin:
  assumes "parse_cert_pin (ar_inertia_cert_sha256 args) = Err e"
    and "main_config bt args w = (Ok (keypair, overrides, ip), w1)"
    and "bt_build_runtime bt w1 = (Ok (), w1')" and "rpc_new bt (ar_rpc_server args) (ar_websocket_server args) w1' = (Ok rpc, w2)"
    and "relayer_new bt os ssl lib queue keypair ip overrides (ar_tpu_quic_port args) (ar_tpu_quic_fwd_port args)
       (ar_relayer_bind_ip args) (ar_relayer_bind_port args) (ar_signing_key_pem_path args)
       (ar_verifying_key_pem_path args) w2 =
         (Ok (rl :: ('so, 's, 't, 'sk, 'vk, 'pk, 'sg, 'q, 'h, 'w) relayer), w3)"
    and "blockengine_new bt (ar_blockengine_url args) (ar_blockengine_bind_ip args) (ar_blockengine_bind_port args) w3 =
      (Ok (be :: ('c, 'a, 'h) blockengine), w4)"
  shows "(main_start bt os ssl lib queue args w ::
      (('kp, 'so, 's, 't, 'sk, 'vk, 'pk, 'sg, 'q, 'c, 'a, 'd, 'h, 'cl, 'w) sys, bool \<times> startup_panic) result \<times> 'w) =
    (Err (True, CertPin e), w4)"
    and "exit_code (True, CertPin e) = 1"
  using assms
  by (simp_all add: main_start_def main_services_def proxy_new_def io_bind_def expect_def pure_call_def
      io_return_def exit_code_def panic_hook_def)

end
