(* ===== verification/Spec2Isabelle.thy ===== *)
theory Spec2Isabelle
  imports Proxy_System Startup
begin

text \<open>
  A verification of the Inertia relayer. The relayer stands between the Solana network, a validator, a
  Jito block engine and the Inertia server. It takes transactions on a TPU, holds every batch for 100
  ms, mirrors it to the Inertia server meanwhile, and forwards it to the validator that subscribed; it
  does the same for the packets and bundles of the block engine. In those 100 ms the Inertia server may
  send filters: a transaction whose first signature is filtered is dropped at the release. Validators
  prove possession of their key before they may subscribe. File names are relative to \<open>src/src\<close>.

  \<^bold>\<open>Parts, theories and definitions.\<close>

  \<^item> \<open>Prelude\<close>, \<open>Hash_Map\<close>, \<open>Ip_Addr\<close>, \<open>Ip_Parse\<close>, \<open>Packets\<close>: Rust's \<open>Result\<close>, slices, time in nanoseconds,
    \<open>HashMap\<close> (an association list with distinct keys behind the locale \<open>hash_map\<close>), \<open>IpAddr\<close> with its
    \<open>Display\<close> and \<open>FromStr\<close>, packets and the messages of \<open>protos/protos/*.proto\<close>, and
    \<open>packet_to_proto_packet\<close> of \<open>protos/convert.rs\<close>. \<open>Prelude\<close> also holds \<open>reach\<close>, the states a step relation
    reaches, and the locales \<open>inductive_invariant\<close> and \<open>progress\<close> used for every step relation.
  \<^item> \<open>Filter_Set\<close>: \<open>FilterSet\<close> of \<open>proxy/mod.rs\<close> (\<open>fs_insert\<close>, \<open>fs_sweep\<close>, \<open>fs_is_empty\<close>, \<open>fs_locked\<close>), and its
    operations split at the lock and the atomic length (\<open>sh_step\<close>).
  \<^item> \<open>Proxy_Filter\<close>: \<open>discard_filtered\<close>, \<open>filter_be_packets\<close>, \<open>filter_be_bundles\<close> of \<open>proxy/mod.rs\<close>, which share the
    contract \<open>release_filter\<close>.
  \<^item> \<open>Mirror\<close>, \<open>Bundle_Stream\<close>, \<open>Cert_Pin\<close>, \<open>Connection\<close>: \<open>proxy/mirror.rs\<close>. Datagrams to the Inertia server and
    their counters, filters read from it, the framed bundle streams in both directions (the writer step by
    step, cut off anywhere), the certificate pin, and in \<open>Connection\<close> the QUIC endpoint, the select over the four
    tasks of a connection poll by poll (\<open>conn_step\<close>) and the reconnect loop (\<open>mirror_run\<close>).
  \<^item> \<open>Delay\<close>: the two delay lines of \<open>proxy/mod.rs\<close>, \<open>spawn_relayer_delay\<close> and \<open>delay_forward\<close>, instances of the
    contract \<open>delay_line\<close>.
  \<^item> \<open>Proxy_System\<close>: the tasks that \<open>Proxy::new\<close> spawns, running together on one mirror, filter set and clock. Every
    access to the shared data is a step (\<open>proxy_step\<close>: \<open>task_step\<close> of the three delay lines, \<open>background_step\<close> of the
    mirror's tasks), and a log of the steps orders what happens across tasks. The passes of \<open>Delay\<close> and the polls
    of \<open>Connection\<close> are shown to be runs of these steps.
  \<^item> \<open>Forwarder\<close>: \<open>relayer/forwarder.rs\<close>, the subscription table, batching, heartbeats and the event loop,
    interleaved with the gRPC server (\<open>fwd_step\<close>).
  \<^item> \<open>Auth_Challenges\<close>, \<open>Auth_Service\<close>, \<open>Auth_Interceptor\<close>: \<open>relayer/auth\<close>, the three handlers with every early
    return, and the interceptor; \<open>auth_step\<close> has one step per access to the challenge queue.
  \<^item> \<open>Block_Engine\<close>, \<open>Block_Service\<close>: \<open>blockengine/service.rs\<close>. Client pools, requests passed on, rewritten
    endpoints, the streams served to a validator and their tasks (\<open>serve_step\<close>); then the service with its pools
    and channels and one definition for each of its seven requests, which change it by \<open>service_step\<close> only.
  \<^item> \<open>Staked_Nodes\<close>: \<open>relayer/staked_nodes_updater_service.rs\<close> and the thread counts of \<open>relayer/tpu.rs\<close>.
  \<^item> \<open>Key_Files\<close>: \<open>load_or_generate_keys\<close> of \<open>relayer/mod.rs\<close>.
  \<^item> \<open>Shutdown\<close>: \<open>helper.rs\<close>, the watchers of the exit flag, the slot thread of \<open>rpc.rs\<close> and the joins of
    \<open>main.rs\<close> (\<open>process_step\<close>).
  \<^item> \<open>Startup\<close>: \<open>Args\<close> and \<open>main\<close> of \<open>main.rs\<close> and the constructors of all components, with the channels that
    connect them.
  \<^item> This theory: properties that span the parts, from a filter datagram to the three filters, from the
    TPU through the running proxy to the validator, from the block engine to the validator.

  \<^bold>\<open>State and effects.\<close> A component's state is a record and an operation a function on it; panics, statuses
  and errors are values of \<open>result\<close>. Data that other tasks write too is passed through interference
  functions at every point where the code releases it (\<open>env\<close> in the handlers, \<open>ri_before_release\<close> and the
  like in the loops), so a statement about one task holds for every behaviour of the others. Loops around
  a \<open>select\<close> are functions on the list of what the polls see. A channel is seen as the inputs and outputs of
  the loops at its ends; \<open>Startup\<close> and \<open>Block_Service\<close> name it by a value that its senders and receivers share.
  \<open>dl_recvd\<close>, \<open>dl_sent\<close>, \<open>ps_log\<close>, \<open>bo_taken\<close>, \<open>bo_written\<close>, \<open>as_pushed\<close>, \<open>as_redeemed\<close> and \<open>as_tokens\<close> record what
  happened and do not influence it. Integers are words where the code may
  wrap: counters, ports, lengths and time stamps on the wire.

  \<^bold>\<open>What the lemmas show.\<close>

  \<^item> Filtering: the filter set refines a map of signatures with a time to live; a release filter removes
    exactly what the set blocks; in every interleaving of the proxy's tasks a filter received keeps its
    signature out of all three streams for two seconds.
  \<^item> Delay: nothing taken from a channel is lost, repeated or reordered, nothing leaves early, what leaves was
    filtered with the set of that moment, and it was handed to the mirror before. This holds of each loop under any
    interference and of all tasks together.
  \<^item> Wiring: nothing of the block engine reaches a validator past the delay and the filter.
  \<^item> Forwarding: every live packet that is not filtered is offered to the validator, in order, in
    messages of at most 64; at most one validator is subscribed in every interleaving.
  \<^item> Authentication: whoever subscribes proved possession of the key in a challenge that the service made
    for that key and address, for every interleaving of requests; an honest validator is admitted; a
    challenge yields tokens once; the handlers refine the step relation.
  \<^item> Mirror: datagrams, counters, reconnect pauses and framing, with a round trip of the two ends of a
    bundle stream; at most one bundle response per connection is lost in flight; a connection that is used belongs
    to the peer with the configured certificate; the tasks of a connection do not disturb one another.
  \<^item> Start and stop: a start leaves every component in the initial state of its model with matching keys
    when it made the verifying key; after a signal the process ends once the validators' packet streams are
    closed, and without one it does not.
  \<^item> Weaknesses that the proofs brought out are stated as theorems: \<open>expired_token_admitted\<close>,
    \<open>access_token_renews\<close>, \<open>resubscription_dropped\<close>, \<open>stale_verifying_key_kept\<close>, \<open>exit_flag_leaves_servers\<close>,
    \<open>open_stream_holds_process\<close>, \<open>pool_keeps_every_peer\<close>, \<open>main_start_bad_pin\<close>.

  \<^bold>\<open>Assumptions.\<close> Libraries are parameters. Where a proof needs their documented behaviour it is a named
  hypothesis: \<open>kpq_ok\<close> (the keyed priority queue), \<open>jwt_ok\<close> and \<open>unforged\<close> (tokens verify with the right key, and
  a token that verifies was issued), \<open>pubkey_ok\<close>, \<open>time_ok\<close>, \<open>os_ok\<close> (files), \<open>pem_pair_ok\<close> (key pairs),
  \<open>checks_server_cert\<close> (TLS asks the verifier), \<open>codec_ok\<close> (protobuf decodes what it encoded), \<open>fresh_channels\<close> (a
  new channel is new), and for the broadcast channels that they keep the order of the items and at most skip
  some. Every such property has a witness with concrete functions.

  \<^bold>\<open>Bounds and termination.\<close> No fuel is used. The release loops, the bundle reader, the batching loop and
  \<open>remove_all_expired\<close> are proved to terminate on every input; waiting for a flag is a partial function
  whose value is shown to be there as soon as the flag is raised. Instants are natural numbers, so the
  panic of \<open>Instant\<close> addition near its limit is outside the model, as are allocation failures and
  poisoned locks.

  \<^bold>\<open>Not modelled.\<close> \<open>build.rs\<close> and \<open>protos/mod.rs\<close>, which generate code from the \<open>.proto\<close> files. Log messages. The
  spawning of tasks on the runtime, which cannot fail, and the scheduling of tasks by tokio: every order of
  their steps is allowed. A panic inside a task or thread is a step of no relation, since its hook ends the
  process (\<open>panic_hook\<close>). \<open>ConnectedValidator\<close> as a handle: its value is an input of the control task.
\<close>

section \<open>From a filter datagram to the release\<close>

text \<open>
  A filter datagram has its effect on all three streams: once the mirror has ingested the filter
  tag and a signature at \<open>t\<close>, then whatever insertions and sweeps follow, as long as no sweep has read
  an instant two seconds after \<open>t\<close> or later, no live packet of a TPU batch, no packet of a block engine
  batch and no bundle that carries the signature passes the release filters.
\<close>

theorem ingested_filter_blocks:
  assumes "length sig = 64" and "fs_wf (mi_filter_set m)"
    and "fs = fs_run post (mi_filter_set (ingest_filter t (FILTER_TAG # sig) m))"
    and "no_expiry sig t post"
  shows "(\<forall>p \<in> set (batch_units (discard_filtered pdata fs batch)). sig \<notin> batch_unit_sigs pdata p) \<and>
    (\<forall>p \<in> set (be_packet_units (filter_be_packets fs packets)). sig \<notin> be_packet_unit_sigs p) \<and>
    (\<forall>bu \<in> set (bb_bundles (filter_be_bundles fs bundles)). sig \<notin> be_bundle_unit_sigs bu)"
proof -
  have fs: "fs = fs_run post (fs_insert t sig (mi_filter_set m))"
    using assms(1,3) by (simp add: ingest_filter_def array_try_from_def)
  then have "fs_wf fs" using assms(2) by auto
  moreover have "fs_blocks fs sig"
    unfolding fs using assms(2,4) by (rule fs_run_keeps_blocked)
  ultimately show ?thesis
    using bank.no_blocked_unit bep.no_blocked_unit beb.no_blocked_unit by blast
qed

theorem ingested_filter_blocks_witness:
  "replicate 64 7 \<notin> (\<Union>p \<in> set (batch_units (discard_filtered pdata_example
      (fs_run [Sweep (\<lambda>_. 1000)] (mi_filter_set (ingest_filter 5 (FILTER_TAG # replicate 64 7)
        (mirror_example :: unit mirror)))) batch_example)). batch_unit_sigs pdata_example p)"
proof -
  have "no_expiry (replicate 64 7) 5 [Sweep (\<lambda>_. 1000)]" by (simp add: TTL_def from_secs_def)
  moreover have "fs_wf (mi_filter_set (mirror_example :: unit mirror))" by simp
  ultimately show ?thesis
    using ingested_filter_blocks [where pdata = pdata_example and batch = batch_example and t = 5
        and m = "mirror_example :: unit mirror" and sig = "replicate 64 7" and post = "[Sweep (\<lambda>_. 1000)]",
        OF _ _ refl] by simp
qed

section \<open>From the TPU to the validator\<close>

lemma forwarded_to_subscriber:
  assumes "hm_invar subs" and "hm_get subs k = Some tx" and "ch_timestamp chan w = (ts, w1)"
  shows "let msgs = batch_responses ts (live_proto_packets pdata out);
      (rs, w2) = send_all chan (calls_of subs msgs) w1
    in forward_packets pdata chan (Ok out) (subs, w) = (Ok (closed_keys rs, of_nat (full_count rs)), w2) \<and>
       filter (\<lambda>c. fst c = k) (calls_of subs msgs) = map (\<lambda>m. (k, tx, m)) msgs \<and>
       concat (map response_packets msgs) = live_proto_packets pdata out"
proof -
  have ne: "subs \<noteq> []" using assms(2) by (auto simp: hm_get_def)
  show ?thesis
    by (simp add: Let_def case_prod_beta batch_responses_packets calls_to_subscriber [OF assms(1,2)]
        forward_packets_sends [OF ne assms(3) surjective_pairing])
qed

text \<open>
  The whole way of a TPU batch. Whatever the delay thread released (after any run, under any
  interference that keeps the filter set well-formed), the forwarder offers to a subscribed validator
  \<open>k\<close>, over all messages and in order, exactly the packets of the batch that were live on reception and
  whose first signature the filter set did not hold at the release, each converted to its protobuf form;
  and it reports exactly the closed channels and the number of full ones.
\<close>

theorem tpu_batch_reaches_validator:
  assumes "relayer_delay_run pdata net delay inps (delay_init s) = st"
    and "shared_wf s" and "\<forall>inp \<in> set inps. relayer_in_ok inp"
    and "si \<in> set (dl_sent st)"
    and "hm_invar subs" and "hm_get subs k = Some tx" and "ch_timestamp chan w = (ts, w1)"
  shows "let fs = mi_filter_set (fst (si_shared si));
      passed = filter (\<lambda>p. \<forall>sig \<in> batch_unit_sigs pdata p. \<not> fs_blocks fs sig) (batch_units (si_item si));
      msgs = batch_responses ts (List.map_filter (packet_to_proto_packet pdata) passed);
      (rs, w2) = send_all chan (calls_of subs msgs) w1
    in forward_packets pdata chan (Ok (si_out si)) (subs, w) =
         (Ok (closed_keys rs, of_nat (full_count rs)), w2) \<and>
       filter (\<lambda>c. fst c = k) (calls_of subs msgs) = map (\<lambda>m. (k, tx, m)) msgs \<and>
       concat (map response_packets msgs) = List.map_filter (packet_to_proto_packet pdata) passed"
  using forwarded_to_subscriber [OF assms(5-7), of pdata "si_out si"]
  by (simp only: live_proto_packets_units relayer_delay_run_blocks [OF assms(1-4)] Let_def)

text \<open>
  C2: the whole way of a TPU batch, in the running proxy. Take any state that any interleaving of the proxy's tasks
  reaches and any batch released there, with the log of everything before. The forwarder offers to a subscribed
  validator \<open>k\<close>, over all messages and in order, exactly the packets of the batch that were live on reception and
  whose first signature no filter in force at the release holds, each converted to its protobuf form;
  and it reports exactly the closed channels and the number of full ones.
\<close>

theorem released_batch_reaches_validator:
  assumes "proxy_reach pdata net s"
    and "ps_log (pr_shared s) = newer @ (t, Released (BatchItem batch) (BatchItem out)) # older"
    and "hm_invar subs" and "hm_get subs k = Some tx" and "ch_timestamp chan w = (ts, w1)"
  shows "let passed = filter (\<lambda>p. \<forall>sig \<in> batch_unit_sigs pdata p. \<not> log_blocks older sig) (batch_units batch);
      msgs = batch_responses ts (List.map_filter (packet_to_proto_packet pdata) passed);
      (rs, w2) = send_all chan (calls_of subs msgs) w1
    in forward_packets pdata chan (Ok out) (subs, w) = (Ok (closed_keys rs, of_nat (full_count rs)), w2) \<and>
       filter (\<lambda>c. fst c = k) (calls_of subs msgs) = map (\<lambda>m. (k, tx, m)) msgs \<and>
       concat (map response_packets msgs) = List.map_filter (packet_to_proto_packet pdata) passed"
proof -
  have "log_ok pdata ((t, Released (BatchItem batch) (BatchItem out)) # older)"
    by (rule reach_log_ok [OF assms(1,2)])
  then have "batch_units out = filter (\<lambda>p. \<forall>sig \<in> batch_unit_sigs pdata p. \<not> log_blocks older sig) (batch_units batch)"
    by (simp add: bank.units_filt_wf filters_at_blocks)
  then show ?thesis
    using forwarded_to_subscriber [OF assms(3-5), of pdata out] by (simp only: live_proto_packets_units Let_def)
qed

theorem released_batch_reaches_validator_witness:
  "\<exists>(s :: (bytes, unit, unit) proxy_sys) batch out older rs w2.
     proxy_reach pdata_example net_example s \<and> px_batch = BatchItem batch \<and>
     ps_log (pr_shared s) = (PACKET_DELAY, Released (BatchItem batch) (BatchItem out)) # older \<and>
     forward_packets pdata_example chan_example (Ok out) ([([1], 5)], (6, 1)) =
       (Ok (closed_keys rs, of_nat (full_count rs)), w2)"
proof -
  obtain s :: "(bytes, unit, unit) proxy_sys" and out0 older where s: "proxy_reach pdata_example net_example s"
    and log0: "ps_log (pr_shared s) = [] @ (PACKET_DELAY, Released px_batch out0) # older"
    using px_reach by blast
  obtain batch where batch: "px_batch = BatchItem batch" by (simp add: px_batch_def)
  obtain out where "out0 = BatchItem out"
    using reach_log_ok [OF s log0] by (auto simp: batch)
  with log0 batch have log: "ps_log (pr_shared s) =
      [] @ (PACKET_DELAY, Released (BatchItem batch) (BatchItem out)) # older" by simp
  have hm: "hm_invar [([1], 5 :: nat)]" "hm_get [([1], 5 :: nat)] [1] = Some 5"
    by (simp_all add: hm_invar_def hm_get_def)
  have ts: "ch_timestamp chan_example (6, 1) = (\<lparr>ts_seconds = 7, ts_nanos = 0\<rparr>, (6, 1))"
    by (simp add: chan_example_def)
  show ?thesis
    using released_batch_reaches_validator [OF s log hm ts] s log batch
    unfolding Let_def case_prod_beta append_Nil by blast
qed

text \<open>
  A batch of two packets for the witness: the filter set holds the signature of the first, and only the
  second is offered to the validator, whose channel takes it.
\<close>

definition two_packets :: "bytes banking_batch" where
  "two_packets = [[packet_example (replicate 65 7), packet_example (replicate 65 9)]]"

lemma two_packets_passed:
  "filter (\<lambda>p. \<forall>sig \<in> batch_unit_sigs pdata_example p. \<not> fs_blocks fs_example sig) (batch_units two_packets) =
   [packet_example (replicate 65 9)]"
  by (simp add: batch_units_def two_packets_def batch_unit_sigs_def pdata_example_def packet_example_def
      data_sigs_def first_signature_eq fs_blocks_example meta_example_def)

theorem tpu_batch_reaches_validator_witness:
  "forward_packets pdata_example chan_example (Ok (discard_filtered pdata_example fs_example two_packets))
     ([([1], 5)], (6, 1)) = (Ok ([], 0), (6, 1))"
proof -
  have hm: "hm_invar [([1], 5 :: nat)]" "hm_get [([1], 5 :: nat)] [1] = Some 5"
    by (simp_all add: hm_invar_def hm_get_def)
  have ts: "ch_timestamp chan_example (6, 1) = (\<lparr>ts_seconds = 7, ts_nanos = 0\<rparr>, (6, 1))"
    by (simp add: chan_example_def)
  obtain pp where pp: "packet_to_proto_packet pdata_example (packet_example (replicate 65 9)) = Some pp"
    by (simp add: packet_example_def packet_to_proto_packet_def pdata_example_def)
  show ?thesis
    using tpu_batch_reaches_validator [OF passes_example_run [of two_packets] _ _ _ hm ts,
        of "\<lparr>si_now = 200, si_at = 105, si_shared = shared_example, si_item = two_packets,
          si_out = discard_filtered pdata_example fs_example two_packets\<rparr>"] fs_wf_example
    by (simp add: shared_wf_def shared_example_def relayer_in_ok_def keeps_wf_def passes_example_def
        pass_example_def two_packets_passed pp batch_responses_def chunks_short calls_of_def
        chan_example_def closed_keys_def full_count_def)
qed

section \<open>From the block engine to the validator\<close>

lemma subseq_subset: "subseq xs ys \<Longrightarrow> set xs \<subseteq> set ys"
  by (auto elim: list_emb_set)

lemma drain_stream_subseq: "subseq (fst (drain_stream polls [])) (recv_items (concat (map fst polls)))"
proof -
  obtain rest where "recv_items (concat (map fst polls)) = fst (drain_stream polls []) @ rest"
    using drain_stream_prefix_items [of "[]" polls] by auto
  then show ?thesis by (simp add: subseq_rev_drop_many)
qed

lemma forward_bundles_sent:
  assumes "fold forward_bundles_step inps (delay_init s) = st"
    and "shared_wf s" and "\<forall>inp \<in> set inps. forward_in_ok inp" and "si \<in> set (dl_sent st)"
  shows "bb_bundles (si_out si) = filter (\<lambda>bu. \<forall>sig \<in> be_bundle_unit_sigs bu.
      \<not> fs_blocks (mi_filter_set (fst (si_shared si))) sig) (bb_bundles (si_item si))"
    and "\<exists>t. (t, si_item si) \<in> set (dl_recvd st) \<and> t + PACKET_DELAY \<le> si_now si"
proof -
  let ?filt = "\<lambda>mw :: 'a mirror \<times> 'b. filter_be_bundles (mi_filter_set (fst mw))"
  have run: "delay_forward PACKET_DELAY (\<lambda>_ mw. mw) ?filt inps (delay_init s) = st"
    using assms(1) by (simp add: delay_forward_def forward_bundles_step_def)
  have "dl_wf (delay_init s)" using assms(2) by (simp add: dl_wf_def delay_init_def)
  then have "dl_wf st"
    using dl_wf_forward [of "\<lambda>_ mw. mw", OF _ assms(3)] run by (auto simp: keeps_wf_def)
  then have wf: "fs_wf (mi_filter_set (fst (si_shared si)))"
    using assms(4) by (simp add: dl_wf_def shared_wf_def)
  have inv: "dl_inv PACKET_DELAY ?filt st"
    using df.run_inv [of PACKET_DELAY ?filt "delay_init s" "\<lambda>_ mw. mw" inps] run by (simp add: delay_forward_def)
  then have out: "si_out si = ?filt (si_shared si) (si_item si)" and now: "si_at si \<le> si_now si"
    using assms(4) by (simp_all add: dl_inv_def)
  show "bb_bundles (si_out si) = filter (\<lambda>bu. \<forall>sig \<in> be_bundle_unit_sigs bu.
      \<not> fs_blocks (mi_filter_set (fst (si_shared si))) sig) (bb_bundles (si_item si))"
    using beb.units_filt_wf [OF wf] by (simp add: out)
  have "(si_at si, si_item si) \<in> set (map (\<lambda>(t, x). (t + PACKET_DELAY, x)) (dl_recvd st))"
    using inv assms(4) unfolding dl_inv_def by force
  then show "\<exists>t. (t, si_item si) \<in> set (dl_recvd st) \<and> t + PACKET_DELAY \<le> si_now si"
    using now by auto
qed

text \<open>
  The whole way of a bundle. The broadcast channels deliver in order and may skip items; on the
  channel to the validator the released bundles are mixed with the bundles that the Inertia server sent
  (\<open>inertia\<close>). What the validator reads is then a part of what was sent on that channel, in order, and
  each response is one of the Inertia server or one of the block engine's, at least 100 ms old and
  without exactly those bundles that the filter set of the moment of release blocks.
\<close>

theorem bundles_to_validator:
  assumes "fold forward_bundles_step inps (delay_init s) = st"
    and "shared_wf s" and "\<forall>inp \<in> set inps. forward_in_ok inp"
    and "subseq (map snd (dl_recvd st)) (pump_upstream rounds)"
    and "sent \<in> shuffles (map si_out (dl_sent st)) inertia"
    and "subseq (recv_items (concat (map fst polls))) sent"
  shows "subseq (fst (drain_stream polls [])) sent \<and>
    (\<forall>r \<in> set (fst (drain_stream polls [])). r \<in> set inertia \<or>
      (\<exists>si \<in> set (dl_sent st). r = si_out si \<and> si_item si \<in> set (pump_upstream rounds) \<and>
         (\<exists>t. (t, si_item si) \<in> set (dl_recvd st) \<and> t + from_millis 100 \<le> si_now si) \<and>
         bb_bundles r = filter (\<lambda>bu. \<forall>sig \<in> be_bundle_unit_sigs bu.
           \<not> fs_blocks (mi_filter_set (fst (si_shared si))) sig) (bb_bundles (si_item si))))"
proof -
  have sub: "subseq (fst (drain_stream polls [])) sent"
    using drain_stream_subseq assms(6) by (rule subseq_order.trans)
  have "r \<in> set inertia \<or> (\<exists>si \<in> set (dl_sent st). r = si_out si)"
    if "r \<in> set (fst (drain_stream polls []))" for r
    using subseq_subset [OF sub] that set_shuffles [OF assms(5)] by auto
  moreover have "si_item si \<in> set (pump_upstream rounds)" if "si \<in> set (dl_sent st)" for si
    using forward_bundles_sent(2) [OF assms(1-3) that] subseq_subset [OF assms(4)] by force
  moreover have "from_millis 100 = PACKET_DELAY" by (simp add: PACKET_DELAY_def)
  ultimately show ?thesis
    using sub forward_bundles_sent [OF assms(1-3)] by (metis (no_types, lifting))
qed

text \<open>
  A run for the witness: a response with two bundles arrives at 5, one of them blocked, and is released
  after the delay.
\<close>

definition bundles_in :: be_bundles_response where
  "bundles_in = \<lparr>bb_bundles = [bundle_example [1], bundle_example (replicate 65 7)]\<rparr>"

definition bundles_out :: be_bundles_response where
  "bundles_out = filter_be_bundles fs_example bundles_in"

definition bundles_polls :: "(be_bundles_response, unit mirror \<times> unit) forward_in list" where
  "bundles_polls =
     [\<lparr>fi_shutdown = False, fi_timer = False, fi_now = 0, fi_recv = Some (BcOk bundles_in), fi_t = 5,
        fi_before_receive = (\<lambda>s. s), fi_before_release = (\<lambda>_ s. s)\<rparr>,
      \<lparr>fi_shutdown = False, fi_timer = True, fi_now = 100000005, fi_recv = None, fi_t = 0,
        fi_before_receive = (\<lambda>s. s), fi_before_release = (\<lambda>_ s. s)\<rparr>]"

lemma bundles_polls_run:
  "fold forward_bundles_step bundles_polls (delay_init shared_example) =
   \<lparr>dl_queue = [], dl_recvd = [(5, bundles_in)],
     dl_sent = [\<lparr>si_now = 100000005, si_at = 100000005, si_shared = shared_example, si_item = bundles_in,
       si_out = bundles_out\<rparr>],
     dl_shared = shared_example, dl_done = False\<rparr>"
  by (simp add: bundles_polls_def forward_bundles_step_def delay_forward_step_def delay_init_def
      dl_push_def dl_interfere_def forward_release.simps front_due_def dl_pop_def PACKET_DELAY_def from_millis_def
      bundles_out_def shared_example_def)

theorem bundles_to_validator_witness:
  "fst (drain_stream [([Lagged 3, Item bundles_out], False)] []) = [bundles_out] \<and>
   bb_bundles bundles_out = filter (\<lambda>bu. \<forall>sig \<in> be_bundle_unit_sigs bu. \<not> fs_blocks fs_example sig)
     (bb_bundles bundles_in)"
proof -
  have "shared_wf shared_example" using fs_wf_example by (simp add: shared_wf_def shared_example_def)
  moreover have "\<forall>inp \<in> set bundles_polls. forward_in_ok inp"
    by (simp add: bundles_polls_def forward_in_ok_def keeps_wf_def)
  moreover have "subseq (map snd [(5 :: nat, bundles_in)]) (pump_upstream [(False, Ok (Some bundles_in))])"
    by simp
  ultimately show ?thesis
    using bundles_to_validator [OF bundles_polls_run, of "[(False, Ok (Some bundles_in))]" "[bundles_out]" "[]"
        "[([Lagged 3, Item bundles_out], False)]"]
    by (simp add: poll_next_def shared_example_def)
qed

section \<open>From the block engine through the running proxy\<close>

text \<open>What a line has sent, oldest first.\<close>

fun line_outs :: "line \<Rightarrow> (instant \<times> ('b, 'c) event) list \<Rightarrow> 'b item list" where
  "line_outs l [] = []"
| "line_outs l ((t, ev) # older) =
     line_outs l older @ (case ev of Released x out \<Rightarrow> if item_line x = l then [out] else [] | _ \<Rightarrow> [])"

lemma line_outs_released:
  "out \<in> set (line_outs l log) \<Longrightarrow>
     \<exists>newer t x older. log = newer @ (t, Released x out) # older \<and> item_line x = l"
proof (induction log rule: line_outs.induct)
  case (2 l t ev older)
  then consider "out \<in> set (line_outs l older)" | x where "ev = Released x out" "item_line x = l"
    by (auto split: event.splits if_splits)
  then show ?case
  proof cases
    case 1
    from 2(1) [OF this] show ?thesis by (metis append_Cons)
  next
    case 2
    then show ?thesis by (metis append_Nil)
  qed
qed simp

lemma log_queued_mem: "(t, Queued x) \<in> set log \<Longrightarrow> x \<in> set (log_queued (item_line x) log)"
proof (induction log)
  case (Cons e log)
  obtain t' ev where e: "e = (t', ev)" by (cases e)
  show ?case
  proof (cases "ev = Queued x")
    case False
    then have "(t, Queued x) \<in> set log" using Cons.prems e by simp
    from Cons.IH [OF this] show ?thesis unfolding e log_queued.simps set_append by (rule UnI1)
  qed (simp add: e)
qed simp

text \<open>
  C6: the whole way of a response of the block engine, in the running proxy. The proxy's line \<open>l\<close> takes its items
  from the channel that the pumps of all streams write, and a validator reads the channel of what the line
  released, on which the Inertia server's bundles (\<open>inertia\<close>) are mixed in; channels deliver only what was sent, in
  order, and may skip items. In every interleaving of the proxy's tasks, what the validator reads is then part of
  what was sent, in order, and each response is one of the Inertia server or was pumped from an upstream, queued
  at least 100 ms before its release, and released without exactly those packets or bundles that a filter in
  force at that moment blocks.
\<close>

theorem responses_to_validator:
  assumes "proxy_reach pdata net s" and "log = ps_log (pr_shared s)"
    and "set (log_queued l log) \<subseteq> (\<Union>rounds \<in> set pumps. set (pump_upstream rounds))"
    and "sent \<in> shuffles (line_outs l log) inertia"
    and "subseq (recv_items (concat (map fst polls))) sent"
  shows "subseq (fst (drain_stream polls [])) sent \<and>
    (\<forall>r \<in> set (fst (drain_stream polls [])). r \<in> set inertia \<or>
      (\<exists>newer t x older. log = newer @ (t, Released x r) # older \<and>
         (\<exists>rounds \<in> set pumps. x \<in> set (pump_upstream rounds)) \<and>
         (\<exists>t0. (t0, Queued x) \<in> set older \<and> t0 + from_millis 100 \<le> t) \<and>
         item_units r = filter (\<lambda>u. \<forall>sig \<in> unit_sigs pdata u. \<not> log_blocks older sig) (item_units x)))"
proof -
  have sub: "subseq (fst (drain_stream polls [])) sent"
    using drain_stream_subseq assms(5) by (rule subseq_order.trans)
  have "\<exists>newer t x older. log = newer @ (t, Released x r) # older \<and>
         (\<exists>rounds \<in> set pumps. x \<in> set (pump_upstream rounds)) \<and>
         (\<exists>t0. (t0, Queued x) \<in> set older \<and> t0 + from_millis 100 \<le> t) \<and>
         item_units r = filter (\<lambda>u. \<forall>sig \<in> unit_sigs pdata u. \<not> log_blocks older sig) (item_units x)"
    if "r \<in> set (fst (drain_stream polls []))" "r \<notin> set inertia" for r
  proof -
    have "r \<in> set (line_outs l log)"
      using subseq_subset [OF sub] that set_shuffles [OF assms(4)] by auto
    then obtain newer t x older where log: "log = newer @ (t, Released x r) # older" "item_line x = l"
      using line_outs_released by blast
    have ok: "log_ok pdata ((t, Released x r) # older)"
      by (rule reach_log_ok [OF assms(1) log(1) [unfolded assms(2)]])
    then obtain t0 where t0: "(t0, Queued x) \<in> set older" "t0 + from_millis 100 \<le> t" by (auto simp: PACKET_DELAY_def)
    then have "(t0, Queued x) \<in> set log" using log(1) by simp
    then have "x \<in> set (log_queued l log)" using log_queued_mem log(2) by blast
    moreover have "item_units r = filter (\<lambda>u. \<forall>sig \<in> unit_sigs pdata u. \<not> log_blocks older sig) (item_units x)"
      using ok by (simp add: items.units_filt_wf filters_at_blocks)
    ultimately show ?thesis using log(1) t0 assms(3) by blast
  qed
  with sub show ?thesis by blast
qed

text \<open>A run for the witness: a filter arrives, then a response with two bundles, one of them with that signature.\<close>

definition py_item :: "bytes item" where "py_item = BundlesItem bundles_in"

lemma py_reach:
  "\<exists>(s :: (bytes, unit, unit) proxy_sys) out. proxy_reach pdata_example net_example s \<and>
     log_queued BundleLine (ps_log (pr_shared s)) = [py_item] \<and> line_outs BundleLine (ps_log (pr_shared s)) = [out]"
proof -
  let ?steps = "(proxy_step pdata_example net_example)\<^sup>*\<^sup>*" and ?run = "run_actions pdata_example net_example BundleLine"
  have init: "proxy_reach pdata_example net_example px_start"
    unfolding px_start_def mirror_example_def by (rule reach_init) blast
  have line: "item_line py_item = BundleLine" "item_datagrams pdata_example py_item = []" by (simp_all add: py_item_def)
  have "\<exists>tk sh. ?run [Recv py_item, Push] (pr_tasks px_filtered BundleLine) (pr_shared px_filtered) = Some (tk, sh) \<and>
      tk_pc tk = Idle \<and> tk_queue tk = [(PACKET_DELAY, py_item)] \<and> ps_now sh = 0 \<and>
      log_queued BundleLine (ps_log sh) = [py_item] \<and> line_outs BundleLine (ps_log sh) = []"
    using line by (simp add: task_step.simps px_filtered_def px_start_def proxy_init_def task_init_def Let_def record_event_def)
  then obtain tk sh where run1: "?run [Recv py_item, Push] (pr_tasks px_filtered BundleLine) (pr_shared px_filtered) = Some (tk, sh)"
    and idle: "tk_pc tk = Idle" "tk_queue tk = [(PACKET_DELAY, py_item)]" "ps_now sh = 0"
    and log1: "log_queued BundleLine (ps_log sh) = [py_item]" "line_outs BundleLine (ps_log sh) = []"
    by blast
  define s1 where "s1 = px_filtered\<lparr>pr_tasks := (pr_tasks px_filtered)(BundleLine := tk), pr_shared := sh\<rparr>"
  define s2 where "s2 = s1\<lparr>pr_shared := background_step net_example (Pass PACKET_DELAY) (pr_shared s1)\<rparr>"
  have "?steps px_start px_filtered" unfolding px_filtered_def by (blast intro: proxy_step.background)
  moreover have "?steps px_filtered s1" unfolding s1_def by (rule run_actions_steps [OF run1])
  moreover have "?steps s1 s2" unfolding s2_def by (blast intro: proxy_step.background)
  ultimately have reach2: "proxy_reach pdata_example net_example s2"
    using reach_steps [OF init] by (meson rtranclp_trans)
  have "\<exists>tk' sh' out. ?run [Wake, ReadClock, Release True] (pr_tasks s2 BundleLine) (pr_shared s2) = Some (tk', sh') \<and>
      log_queued BundleLine (ps_log sh') = [py_item] \<and> line_outs BundleLine (ps_log sh') = [out]"
    using idle log1 line by (simp add: s2_def s1_def task_step.simps front_due_def record_event_def)
  then obtain tk' sh' out where run2: "?run [Wake, ReadClock, Release True] (pr_tasks s2 BundleLine) (pr_shared s2) = Some (tk', sh')"
    and "log_queued BundleLine (ps_log sh') = [py_item]" "line_outs BundleLine (ps_log sh') = [out]"
    by blast
  with reach_steps [OF reach2 run_actions_steps [OF run2]] show ?thesis
    by (intro exI [of _ "s2\<lparr>pr_tasks := (pr_tasks s2)(BundleLine := tk'), pr_shared := sh'\<rparr>"] exI [of _ out]) simp
qed

theorem responses_to_validator_witness:
  "\<exists>(s :: (bytes, unit, unit) proxy_sys) out newer t older. proxy_reach pdata_example net_example s \<and>
     fst (drain_stream [([Lagged 3, Item out], False)] []) = [out] \<and>
     ps_log (pr_shared s) = newer @ (t, Released py_item out) # older"
proof -
  obtain s :: "(bytes, unit, unit) proxy_sys" and out where s: "proxy_reach pdata_example net_example s"
    "log_queued BundleLine (ps_log (pr_shared s)) = [py_item]" "line_outs BundleLine (ps_log (pr_shared s)) = [out]"
    using py_reach by blast
  have pump: "set (log_queued BundleLine (ps_log (pr_shared s))) \<subseteq>
      (\<Union>rounds \<in> set [[(False, Ok (Some py_item))]]. set (pump_upstream rounds))" by (simp add: s(2))
  have sent: "[out] \<in> shuffles (line_outs BundleLine (ps_log (pr_shared s))) []" by (simp add: s(3))
  have got: "fst (drain_stream [([Lagged 3, Item out], False)] []) = [out]" by (simp add: poll_next_def)
  from responses_to_validator [OF s(1) refl pump sent, of "[([Lagged 3, Item out], False)]"]
  obtain newer t x older where "ps_log (pr_shared s) = newer @ (t, Released x out) # older" "x = py_item"
    unfolding got by auto
  with s(1) got show ?thesis by blast
qed

end
